theory Spec2Isabelle
  imports Main
begin

section \<open>Window-open routing: the new-window decision\<close>

text \<open>
  \<^verbatim>\<open>IOpenSettings\<close> as \<^verbatim>\<open>SimpleWindowService.shouldOpenNewWindow\<close> reads it: two optional
  booleans. An absent field is \<^verbatim>\<open>undefined\<close>, which is falsy.
\<close>

record IOpenSettings =
  forceNewWindow :: "bool option"
  forceReuseWindow :: "bool option"

text \<open>
  The \<^verbatim>\<open>window\<close> section of the configuration. The setting is user data: it may be absent
  or hold any string.
\<close>

record IWindowSettings =
  openFoldersInNewWindow :: "string option"

definition truthy :: "bool option \<Rightarrow> bool" where
  "truthy b = (case b of None \<Rightarrow> False | Some v \<Rightarrow> v)"

text \<open>
  \<^verbatim>\<open>(windowConfig && windowConfig.openFoldersInNewWindow) || 'default'\<close>: an absent section,
  an absent setting and the empty string are all falsy and give \<^verbatim>\<open>'default'\<close>.
\<close>

definition openFolderInNewWindowConfig :: "IWindowSettings option \<Rightarrow> string" where
  "openFolderInNewWindowConfig windowConfig =
     (case windowConfig of
        None \<Rightarrow> ''default''
      | Some w \<Rightarrow>
          (case openFoldersInNewWindow w of
             None \<Rightarrow> ''default''
           | Some s \<Rightarrow> if s = [] then ''default'' else s))"

text \<open>
  \<^verbatim>\<open>shouldOpenNewWindow(_options = {})\<close>, lines 272-280. The first argument is what
  \<^verbatim>\<open>configurationService.getValue('window')\<close> returns. The result is the field
  \<^verbatim>\<open>openFolderInNewWindow\<close> of the object the method returns.
\<close>

definition shouldOpenNewWindow :: "IWindowSettings option \<Rightarrow> IOpenSettings option \<Rightarrow> bool" where
  "shouldOpenNewWindow windowConfig options =
     (let opts = (case options of
                    None \<Rightarrow> \<lparr>forceNewWindow = None, forceReuseWindow = None\<rparr>
                  | Some x \<Rightarrow> x);
          conf = openFolderInNewWindowConfig windowConfig;
          openFolderInNewWindow = (truthy (forceNewWindow opts) \<and> \<not> truthy (forceReuseWindow opts))
      in if \<not> truthy (forceNewWindow opts) \<and> \<not> truthy (forceReuseWindow opts)
            \<and> (conf = ''on'' \<or> conf = ''off'')
         then conf = ''on''
         else openFolderInNewWindow)"

text \<open>
  The precedence table of the specification (section 4.2, \<^verbatim>\<open>decideNewWindow\<close>), written
  from its four numbered rules.
\<close>

definition decideNewWindow :: "bool \<Rightarrow> bool \<Rightarrow> string \<Rightarrow> bool" where
  "decideNewWindow forceNew forceReuse config =
     (if forceNew \<and> \<not> forceReuse then True
      else if \<not> forceNew \<and> \<not> forceReuse \<and> config = ''on'' then True
      else if \<not> forceNew \<and> \<not> forceReuse \<and> config = ''off'' then False
      else False)"

section \<open>Locations and the recent history\<close>

text \<open>
  Modelled from the spec: the class \<^verbatim>\<open>URI\<close> (vs/base/common/uri) is not among the sources.
  The service compares locations by \<^verbatim>\<open>toString()\<close> only, and the specification defines
  location equality as equality of the normalized string; a location is therefore
  identified with its normalized string. \<^verbatim>\<open>path\<close> is the path component of that string
  (after the scheme and the authority, before a query or fragment), without
  percent-decoding.
\<close>

datatype URI = URI (toString: string)

definition strip_scheme :: "string \<Rightarrow> string" where
  "strip_scheme s =
     (let name = takeWhile (\<lambda>c. c \<notin> set '':/?#'') s;
          rest = drop (length name) s
      in if name \<noteq> [] \<and> take 1 rest = '':'' then drop 1 rest else s)"

definition strip_authority :: "string \<Rightarrow> string" where
  "strip_authority s =
     (if take 2 s = ''//'' then dropWhile (\<lambda>c. c \<notin> set ''/?#'') (drop 2 s) else s)"

definition path :: "URI \<Rightarrow> string" where
  "path u = takeWhile (\<lambda>c. c \<notin> set ''?#'') (strip_authority (strip_scheme (toString u)))"

text \<open>
  \<^verbatim>\<open>IWorkspaceIdentifier\<close> and the three kinds of recent entry (vs/platform/history). The
  field \<^verbatim>\<open>id\<close> is written \<open>id'\<close>. The type guards \<^verbatim>\<open>isRecentFile\<close> and \<^verbatim>\<open>isRecentFolder\<close>
  are the constructors' patterns. The optional \<^verbatim>\<open>label\<close> of an entry is read by none
  of the service's methods and is left out.
\<close>

record IWorkspaceIdentifier =
  id' :: string
  configPath :: URI

datatype IRecentFile = RecentFile (fileUri: URI)

datatype IRecentWorkspaceOrFolder =
    RecentFolder URI
  | RecentWorkspace IWorkspaceIdentifier

datatype IRecent = OfFile IRecentFile | OfWorkspaceOrFolder IRecentWorkspaceOrFolder

text \<open>\<^verbatim>\<open>IRecentlyOpened\<close>: both lists most recent first.\<close>

record IRecentlyOpened =
  workspaces :: "IRecentWorkspaceOrFolder list"
  files :: "IRecentFile list"

definition no_history :: IRecentlyOpened where
  "no_history = \<lparr>workspaces = [], files = []\<rparr>"

text \<open>
  The string an entry of the \<^verbatim>\<open>workspaces\<close> list is compared by (line 220):
  \<^verbatim>\<open>isRecentFolder(workspace) ? workspace.folderUri.toString()
     : workspace.workspace.configPath.toString()\<close>.
\<close>

fun workspace_location :: "IRecentWorkspaceOrFolder \<Rightarrow> string" where
  "workspace_location (RecentFolder folderUri) = toString folderUri"
| "workspace_location (RecentWorkspace workspace) = toString (configPath workspace)"

definition file_location :: "IRecentFile \<Rightarrow> string" where
  "file_location file = toString (fileUri file)"

text \<open>
  \<^verbatim>\<open>doRemoveFromRecentlyOpened(recentlyOpened, paths)\<close>, lines 214-222: both lists are
  filtered, an entry staying when no path has its string (\<^verbatim>\<open>paths.some\<close>).
\<close>

definition doRemoveFromRecentlyOpened :: "IRecentlyOpened \<Rightarrow> URI list \<Rightarrow> IRecentlyOpened" where
  "doRemoveFromRecentlyOpened recentlyOpened paths =
     \<lparr>workspaces =
        filter (\<lambda>workspace. \<not> list_ex (\<lambda>p. toString p = workspace_location workspace) paths)
          (workspaces recentlyOpened),
      files =
        filter (\<lambda>file. \<not> list_ex (\<lambda>p. toString p = file_location file) paths)
          (files recentlyOpened)\<rparr>"

text \<open>
  The body of \<^verbatim>\<open>recents.forEach\<close> in \<^verbatim>\<open>addRecentlyOpened\<close>, lines 190-201: remove the
  entry's location from both lists, then \<^verbatim>\<open>unshift\<close> the entry onto its list.
\<close>

fun addRecent :: "IRecentlyOpened \<Rightarrow> IRecent \<Rightarrow> IRecentlyOpened" where
  "addRecent recentlyOpened (OfFile recent) =
     (let removed = doRemoveFromRecentlyOpened recentlyOpened [fileUri recent]
      in removed\<lparr>files := recent # files removed\<rparr>)"
| "addRecent recentlyOpened (OfWorkspaceOrFolder (RecentFolder folderUri)) =
     (let removed = doRemoveFromRecentlyOpened recentlyOpened [folderUri]
      in removed\<lparr>workspaces := RecentFolder folderUri # workspaces removed\<rparr>)"
| "addRecent recentlyOpened (OfWorkspaceOrFolder (RecentWorkspace workspace)) =
     (let removed = doRemoveFromRecentlyOpened recentlyOpened [configPath workspace]
      in removed\<lparr>workspaces := RecentWorkspace workspace # workspaces removed\<rparr>)"

section \<open>JSON text\<close>

text \<open>
  The persisted blob is text. \<^verbatim>\<open>getRecentlyOpened\<close> reads it with the builtin
  \<^verbatim>\<open>JSON.parse\<close>, which throws a \<^verbatim>\<open>SyntaxError\<close> on text outside the JSON grammar, and
  \<^verbatim>\<open>saveRecentlyOpened\<close> writes it with the builtin \<^verbatim>\<open>JSON.stringify\<close>.

  A JavaScript string is a sequence of 16-bit code units. In a \<open>string\<close> of this theory
  every code unit stands as the bytes of its UTF-8 form, one code unit after the other:
  one byte below \<^verbatim>\<open>0x80\<close>, two bytes below \<^verbatim>\<open>0x800\<close>, three bytes from there on (a
  surrogate, too, stands as its own three bytes \<^verbatim>\<open>ED A0..BF 80..BF\<close>). Two JavaScript
  strings are equal exactly when their bytes are, the empty string is the empty list, and
  the characters of the JSON grammar are single bytes; the service asks nothing else of a
  string. A number is kept as its lexeme (no operation of the service reads a number). An
  object keeps its members in source order.
\<close>

datatype json =
    JNull
  | JBool bool
  | JNumber string
  | JString string
  | JArray "json list"
  | JObject "(string \<times> json) list"

datatype error = SyntaxError | Rejected string

text \<open>
  \<open>SyntaxError\<close> is what \<^verbatim>\<open>JSON.parse\<close> throws; \<open>Rejected\<close> is the error of a collaborator
  that rejects (see \<open>pathsToEditors\<close> below).
\<close>

definition is_ws :: "char \<Rightarrow> bool" where
  "is_ws c = (c = CHR 0x20 \<or> c = CHR 0x09 \<or> c = CHR 0x0A \<or> c = CHR 0x0D)"

definition skip_ws :: "string \<Rightarrow> string" where
  "skip_ws s = dropWhile is_ws s"

definition is_digit :: "char \<Rightarrow> bool" where
  "is_digit c = (48 \<le> (of_char c :: nat) \<and> (of_char c :: nat) \<le> 57)"

definition hex_val :: "char \<Rightarrow> nat option" where
  "hex_val c =
     (let n = (of_char c :: nat)
      in if 48 \<le> n \<and> n \<le> 57 then Some (n - 48)
         else if 97 \<le> n \<and> n \<le> 102 then Some (n - 87)
         else if 65 \<le> n \<and> n \<le> 70 then Some (n - 55)
         else None)"

definition hex4 :: "char \<Rightarrow> char \<Rightarrow> char \<Rightarrow> char \<Rightarrow> nat option" where
  "hex4 a b c d =
     (case hex_val a of None \<Rightarrow> None | Some w \<Rightarrow>
      (case hex_val b of None \<Rightarrow> None | Some x \<Rightarrow>
       (case hex_val c of None \<Rightarrow> None | Some y \<Rightarrow>
        (case hex_val d of None \<Rightarrow> None | Some z \<Rightarrow>
           Some (((w * 16 + x) * 16 + y) * 16 + z)))))"

definition simple_escape :: "char \<Rightarrow> char option" where
  "simple_escape e =
     (if e = CHR 0x22 then Some (CHR 0x22)
      else if e = CHR 0x5C then Some (CHR 0x5C)
      else if e = CHR ''/'' then Some (CHR ''/'')
      else if e = CHR ''b'' then Some (CHR 0x08)
      else if e = CHR ''f'' then Some (CHR 0x0C)
      else if e = CHR ''n'' then Some (CHR 0x0A)
      else if e = CHR ''r'' then Some (CHR 0x0D)
      else if e = CHR ''t'' then Some (CHR 0x09)
      else None)"

definition cons_char :: "char \<Rightarrow> error + (string \<times> string) \<Rightarrow> error + (string \<times> string)" where
  "cons_char c res = (case res of Inl e \<Rightarrow> Inl e | Inr (str, r) \<Rightarrow> Inr (c # str, r))"

text \<open>The bytes of one code unit, and a lexer result with the bytes of a code unit in front.\<close>

definition unit_bytes :: "nat \<Rightarrow> string" where
  "unit_bytes n =
     (if n < 128 then [char_of n]
      else if n < 2048 then [char_of (192 + n div 64), char_of (128 + n mod 64)]
      else [char_of (224 + n div 4096), char_of (128 + n div 64 mod 64),
            char_of (128 + n mod 64)])"

definition cons_unit :: "nat \<Rightarrow> error + (string \<times> string) \<Rightarrow> error + (string \<times> string)" where
  "cons_unit n res =
     (case res of Inl e \<Rightarrow> Inl e | Inr (str, r) \<Rightarrow> Inr (unit_bytes n @ str, r))"

text \<open>
  The characters of a string literal after its opening quote, up to the closing quote. An
  escape \<^verbatim>\<open>\uXXXX\<close> gives the code unit of its four hexadecimal digits, whatever it is.
\<close>

fun string_chars :: "string \<Rightarrow> error + (string \<times> string)" where
  "string_chars [] = Inl SyntaxError"
| "string_chars (c # cs) =
     (if c = CHR 0x22 then Inr ([], cs)
      else if c = CHR 0x5C then
        (case cs of
           [] \<Rightarrow> Inl SyntaxError
         | e # es \<Rightarrow>
             if e = CHR ''u'' then
               (case es of
                  h1 # h2 # h3 # h4 # r \<Rightarrow>
                    (case hex4 h1 h2 h3 h4 of
                       None \<Rightarrow> Inl SyntaxError
                     | Some n \<Rightarrow> cons_unit n (string_chars r))
                | _ \<Rightarrow> Inl SyntaxError)
             else
               (case simple_escape e of
                  None \<Rightarrow> Inl SyntaxError
                | Some ch \<Rightarrow> cons_char ch (string_chars es)))
      else if (of_char c :: nat) < 32 then Inl SyntaxError
      else cons_char c (string_chars cs))"


text \<open>The string lexer and the whitespace skipper consume input: used for termination below.\<close>

lemma cons_char_Inr: "cons_char c res = Inr (str, r) \<longleftrightarrow> (\<exists>t. res = Inr (t, r) \<and> str = c # t)"
  by (auto simp: cons_char_def split: sum.splits)

lemma cons_unit_Inr:
  "cons_unit n res = Inr (str, r) \<longleftrightarrow> (\<exists>t. res = Inr (t, r) \<and> str = unit_bytes n @ t)"
  by (auto simp: cons_unit_def split: sum.splits)

lemma string_chars_shorter: "string_chars s = Inr (str, r) \<Longrightarrow> length r < length s"
proof (induction s arbitrary: str rule: string_chars.induct)
  case 1
  then show ?case by simp
next
  case (2 c cs)
  show ?case
  proof (cases "c = CHR 0x22")
    case True
    with "2.prems" show ?thesis by simp
  next
    case quote: False
    show ?thesis
    proof (cases "c = CHR 0x5C")
      case False
      with quote "2.prems" obtain t where "string_chars cs = Inr (t, r)"
        by (auto simp: cons_char_Inr split: if_splits)
      with "2.IH"(3) [OF quote False] quote False "2.prems" show ?thesis
        by (fastforce split: if_splits)
    next
      case True
      with quote "2.prems" obtain e es where cs: "cs = e # es"
        by (cases cs) auto
      show ?thesis
      proof (cases "e = CHR ''u''")
        case False
        with True quote cs "2.prems" obtain ch t where
          "simple_escape e = Some ch" "string_chars es = Inr (t, r)"
          by (auto simp: cons_char_Inr split: option.splits)
        with "2.IH"(2) [OF quote True cs False] cs show ?thesis
          by fastforce
      next
        case u: True
        with True quote cs "2.prems" obtain h1 h2 h3 h4 r' n t where
          es: "es = h1 # h2 # h3 # h4 # r'" and h: "hex4 h1 h2 h3 h4 = Some n"
          and t: "string_chars r' = Inr (t, r)"
          by (auto simp: cons_unit_Inr split: list.splits option.splits)
        have "length r < length r'"
          by (rule "2.IH"(1) [OF quote True cs u _ refl refl refl h t]) (simp add: es)
        with cs es show ?thesis by simp
      qed
    qed
  qed
qed

lemma skip_ws_length: "length (skip_ws s) \<le> length s"
  by (simp add: skip_ws_def length_dropWhile_le)

lemma skip_ws_Cons_length: "skip_ws s = c # cs \<Longrightarrow> length cs < length s"
  using skip_ws_length [of s] by simp

text \<open>Number lexemes: \<^verbatim>\<open>-? (0 | [1-9][0-9]*) (. [0-9]+)? ([eE] [+-]? [0-9]+)?\<close>.\<close>

definition digits :: "string \<Rightarrow> (string \<times> string) option" where
  "digits s = (if takeWhile is_digit s = [] then None
               else Some (takeWhile is_digit s, dropWhile is_digit s))"

definition number_int :: "string \<Rightarrow> (string \<times> string) option" where
  "number_int s =
     (case s of
        [] \<Rightarrow> None
      | d # ds \<Rightarrow>
          if d = CHR ''0'' then Some ([d], ds)
          else digits (d # ds))"

definition number_frac :: "string \<Rightarrow> (string \<times> string) option" where
  "number_frac s =
     (case s of
        [] \<Rightarrow> Some ([], s)
      | c # cs \<Rightarrow>
          if c = CHR ''.'' then
            (case digits cs of None \<Rightarrow> None | Some (ds, r) \<Rightarrow> Some (c # ds, r))
          else Some ([], s))"

definition number_exp :: "string \<Rightarrow> (string \<times> string) option" where
  "number_exp s =
     (case s of
        [] \<Rightarrow> Some ([], s)
      | c # cs \<Rightarrow>
          if c = CHR ''e'' \<or> c = CHR ''E'' then
            (case cs of
               [] \<Rightarrow> None
             | g # gs \<Rightarrow>
                 if g = CHR ''+'' \<or> g = CHR ''-'' then
                   (case digits gs of None \<Rightarrow> None | Some (ds, r) \<Rightarrow> Some (c # g # ds, r))
                 else
                   (case digits cs of None \<Rightarrow> None | Some (ds, r) \<Rightarrow> Some (c # ds, r)))
          else Some ([], s))"

definition parse_number :: "string \<Rightarrow> (string \<times> string) option" where
  "parse_number s =
     (let sign = (if take 1 s = ''-'' then ''-'' else []);
          s1 = drop (length sign) s
      in case number_int s1 of
           None \<Rightarrow> None
         | Some (ip, s2) \<Rightarrow>
             (case number_frac s2 of
                None \<Rightarrow> None
              | Some (fp, s3) \<Rightarrow>
                  (case number_exp s3 of
                     None \<Rightarrow> None
                   | Some (ep, s4) \<Rightarrow> Some (sign @ ip @ fp @ ep, s4))))"

text \<open>
  Recursive descent over values, array elements (after \<^verbatim>\<open>[\<close>) and object members (after
  \<^verbatim>\<open>{\<close>). The tests \<open>length r < length s\<close> only serve the termination proof: they always hold
  (\<open>parse_shorter\<close> below), and \<open>parse_elements_unfold\<close> and \<open>parse_members_unfold\<close> give
  the equations without them.
\<close>

function parse_value :: "string \<Rightarrow> error + (json \<times> string)"
  and parse_elements :: "string \<Rightarrow> error + (json list \<times> string)"
  and parse_members :: "string \<Rightarrow> error + ((string \<times> json) list \<times> string)"
where
  "parse_value s =
     (case skip_ws s of
        [] \<Rightarrow> Inl SyntaxError
      | c # cs \<Rightarrow>
          if c = CHR ''{'' then
            (case skip_ws cs of
               [] \<Rightarrow> Inl SyntaxError
             | d # ds \<Rightarrow>
                 if d = CHR ''}'' then Inr (JObject [], ds)
                 else (case parse_members cs of
                         Inl e \<Rightarrow> Inl e
                       | Inr (kvs, r) \<Rightarrow> Inr (JObject kvs, r)))
          else if c = CHR ''['' then
            (case skip_ws cs of
               [] \<Rightarrow> Inl SyntaxError
             | d # ds \<Rightarrow>
                 if d = CHR '']'' then Inr (JArray [], ds)
                 else (case parse_elements cs of
                         Inl e \<Rightarrow> Inl e
                       | Inr (vs, r) \<Rightarrow> Inr (JArray vs, r)))
          else if c = CHR 0x22 then
            (case string_chars cs of
               Inl e \<Rightarrow> Inl e
             | Inr (str, r) \<Rightarrow> Inr (JString str, r))
          else if c = CHR ''-'' \<or> is_digit c then
            (case parse_number (c # cs) of
               None \<Rightarrow> Inl SyntaxError
             | Some (lexeme, r) \<Rightarrow> Inr (JNumber lexeme, r))
          else if take 4 (c # cs) = ''true'' then Inr (JBool True, drop 4 (c # cs))
          else if take 5 (c # cs) = ''false'' then Inr (JBool False, drop 5 (c # cs))
          else if take 4 (c # cs) = ''null'' then Inr (JNull, drop 4 (c # cs))
          else Inl SyntaxError)"
| "parse_elements s =
     (case parse_value s of
        Inl e \<Rightarrow> Inl e
      | Inr (v, r) \<Rightarrow>
          if length r < length s then
            (case skip_ws r of
               [] \<Rightarrow> Inl SyntaxError
             | c # cs \<Rightarrow>
                 if c = CHR '','' then
                   (case parse_elements cs of
                      Inl e \<Rightarrow> Inl e
                    | Inr (vs, r') \<Rightarrow> Inr (v # vs, r'))
                 else if c = CHR '']'' then Inr ([v], cs)
                 else Inl SyntaxError)
          else Inl SyntaxError)"
| "parse_members s =
     (case skip_ws s of
        [] \<Rightarrow> Inl SyntaxError
      | c # cs \<Rightarrow>
          if c = CHR 0x22 then
            (case string_chars cs of
               Inl e \<Rightarrow> Inl e
             | Inr (k, r) \<Rightarrow>
                 (case skip_ws r of
                    [] \<Rightarrow> Inl SyntaxError
                  | d # ds \<Rightarrow>
                      if d = CHR '':'' then
                        (case parse_value ds of
                           Inl e \<Rightarrow> Inl e
                         | Inr (v, r') \<Rightarrow>
                             if length r' < length ds then
                               (case skip_ws r' of
                                  [] \<Rightarrow> Inl SyntaxError
                                | e # es \<Rightarrow>
                                    if e = CHR '','' then
                                      (case parse_members es of
                                         Inl x \<Rightarrow> Inl x
                                       | Inr (kvs, r'') \<Rightarrow> Inr ((k, v) # kvs, r''))
                                    else if e = CHR ''}'' then Inr ([(k, v)], es)
                                    else Inl SyntaxError)
                             else Inl SyntaxError)
                      else Inl SyntaxError))
          else Inl SyntaxError)"
  by pat_completeness auto

termination
proof (relation "measure (\<lambda>x. case x of
          Inl s \<Rightarrow> 2 * length s
        | Inr (Inl s) \<Rightarrow> 2 * length s + 1
        | Inr (Inr s) \<Rightarrow> 2 * length s + 1)", goal_cases)
  case 1
  then show ?case by simp
next
  case (2 s c cs d ds)
  then show ?case using skip_ws_Cons_length [of s c cs] by simp
next
  case (3 s c cs d ds)
  then show ?case using skip_ws_Cons_length [of s c cs] by simp
next
  case (4 s)
  then show ?case by simp
next
  case (5 s x2 v r c cs)
  then show ?case using skip_ws_Cons_length [of r c cs] by simp
next
  case (6 s c cs x2 k r d ds)
  then show ?case
    using skip_ws_Cons_length [of s c cs] skip_ws_Cons_length [of r d ds]
      string_chars_shorter [of cs k r] by simp
next
  case (7 s c cs x2 k r d ds x2a v r' e es)
  then show ?case
    using skip_ws_Cons_length [of s c cs] skip_ws_Cons_length [of r d ds]
      string_chars_shorter [of cs k r] skip_ws_Cons_length [of r' e es] by simp
qed

declare parse_value.simps [simp del] parse_elements.simps [simp del] parse_members.simps [simp del]

text \<open>\<^verbatim>\<open>JSON.parse(text)\<close>: one value, then only whitespace.\<close>

definition JSON_parse :: "string \<Rightarrow> error + json" where
  "JSON_parse text =
     (case parse_value text of
        Inl e \<Rightarrow> Inl e
      | Inr (v, r) \<Rightarrow> if skip_ws r = [] then Inr v else Inl SyntaxError)"


text \<open>
  \<^verbatim>\<open>JSON.stringify(value)\<close> without indentation: \<^verbatim>\<open>QuoteJSONString\<close> escapes the quote, the
  backslash, the code units below 0x20 and the surrogates that stand alone; every other
  code unit is written as it is.
\<close>

definition hex_digit :: "nat \<Rightarrow> char" where
  "hex_digit d = (if d < 10 then char_of (48 + d) else char_of (87 + d))"

definition quote_char :: "char \<Rightarrow> string" where
  "quote_char c =
     (if c = CHR 0x22 then [CHR 0x5C, CHR 0x22]
      else if c = CHR 0x5C then [CHR 0x5C, CHR 0x5C]
      else if c = CHR 0x08 then [CHR 0x5C, CHR ''b'']
      else if c = CHR 0x0C then [CHR 0x5C, CHR ''f'']
      else if c = CHR 0x0A then [CHR 0x5C, CHR ''n'']
      else if c = CHR 0x0D then [CHR 0x5C, CHR ''r'']
      else if c = CHR 0x09 then [CHR 0x5C, CHR ''t'']
      else if (of_char c :: nat) < 32 then
        [CHR 0x5C, CHR ''u'', CHR ''0'', CHR ''0'',
         hex_digit ((of_char c :: nat) div 16), hex_digit ((of_char c :: nat) mod 16)]
      else [c])"

text \<open>
  A surrogate is written as it is when it is the first or second half of a pair, and as
  the escape of its code unit when it stands alone.
\<close>

definition is_high :: "string \<Rightarrow> bool" where
  "is_high s =
     (case s of
        a # b # c # rest \<Rightarrow>
          a = CHR 0xED \<and> 160 \<le> (of_char b :: nat) \<and> (of_char b :: nat) \<le> 175
          \<and> 128 \<le> (of_char c :: nat) \<and> (of_char c :: nat) \<le> 191
      | _ \<Rightarrow> False)"

definition is_low :: "string \<Rightarrow> bool" where
  "is_low s =
     (case s of
        a # b # c # rest \<Rightarrow>
          a = CHR 0xED \<and> 176 \<le> (of_char b :: nat) \<and> (of_char b :: nat) \<le> 191
          \<and> 128 \<le> (of_char c :: nat) \<and> (of_char c :: nat) \<le> 191
      | _ \<Rightarrow> False)"

definition surrogate_unit :: "string \<Rightarrow> nat" where
  "surrogate_unit s =
     (case s of
        a # b # c # rest \<Rightarrow> 53248 + ((of_char b :: nat) - 128) * 64 + ((of_char c :: nat) - 128)
      | _ \<Rightarrow> 0)"

definition unicode_escape :: "nat \<Rightarrow> string" where
  "unicode_escape n =
     [CHR 0x5C, CHR ''u'', hex_digit (n div 4096), hex_digit (n div 256 mod 16),
      hex_digit (n div 16 mod 16), hex_digit (n mod 16)]"

fun quote_chars :: "string \<Rightarrow> string" where
  "quote_chars (a # b # c # rest) =
     (if is_high [a, b, c] then
        (if is_low rest then a # b # c # take 3 rest @ quote_chars (drop 3 rest)
         else unicode_escape (surrogate_unit [a, b, c]) @ quote_chars rest)
      else if is_low [a, b, c] then unicode_escape (surrogate_unit [a, b, c]) @ quote_chars rest
      else quote_char a @ quote_chars (b # c # rest))"
| "quote_chars [a, b] = quote_char a @ quote_chars [b]"
| "quote_chars [a] = quote_char a"
| "quote_chars [] = []"

definition quote :: "string \<Rightarrow> string" where
  "quote s = CHR 0x22 # quote_chars s @ [CHR 0x22]"

fun join_commas :: "string list \<Rightarrow> string" where
  "join_commas [] = []"
| "join_commas [x] = x"
| "join_commas (x # y # ys) = x @ '','' @ join_commas (y # ys)"

fun JSON_stringify :: "json \<Rightarrow> string" where
  "JSON_stringify JNull = ''null''"
| "JSON_stringify (JBool b) = (if b then ''true'' else ''false'')"
| "JSON_stringify (JNumber lexeme) = lexeme"
| "JSON_stringify (JString s) = quote s"
| "JSON_stringify (JArray vs) = ''['' @ join_commas (map JSON_stringify vs) @ '']''"
| "JSON_stringify (JObject kvs) =
     ''{'' @ join_commas (map (\<lambda>(k, v). quote k @ '':'' @ JSON_stringify v) kvs) @ ''}''"


text \<open>
  Notions for the round trip of \<^verbatim>\<open>JSON.stringify\<close> and \<^verbatim>\<open>JSON.parse\<close>: a value without
  numbers, a text whose first character starts a value, and the text of one object member.
\<close>

fun number_free :: "json \<Rightarrow> bool" where
  "number_free (JNumber lexeme) = False"
| "number_free (JArray vs) = list_all number_free vs"
| "number_free (JObject kvs) = list_all (\<lambda>kv. number_free (snd kv)) kvs"
| "number_free v = True"

definition first_ok :: "string \<Rightarrow> bool" where
  "first_ok s = (case s of [] \<Rightarrow> False | c # cs \<Rightarrow> \<not> is_ws c \<and> c \<noteq> CHR '']'' \<and> c \<noteq> CHR ''}'')"

definition member_text :: "string \<times> json \<Rightarrow> string" where
  "member_text kv = quote (fst kv) @ '':'' @ JSON_stringify (snd kv)"

section \<open>The persistence codec\<close>

text \<open>
  Modelled from the spec: \<^verbatim>\<open>toStoreData\<close> (vs/platform/history/common/historyStorage) is not
  among the sources. The serialized form is the schema of section 6 of the specification:
  \<^verbatim>\<open>{ "files": [ { "fileUri": s } ], "workspaces": [ { "folderUri": s } |
     { "workspace": { "id": i, "configPath": s } } ] }\<close>, a location being written as its
  string.
\<close>

fun file_data :: "IRecentFile \<Rightarrow> json" where
  "file_data (RecentFile u) = JObject [(''fileUri'', JString (toString u))]"

fun workspace_data :: "IRecentWorkspaceOrFolder \<Rightarrow> json" where
  "workspace_data (RecentFolder u) = JObject [(''folderUri'', JString (toString u))]"
| "workspace_data (RecentWorkspace w) =
     JObject [(''workspace'',
       JObject [(''id'', JString (id' w)), (''configPath'', JString (toString (configPath w)))])]"

definition toStoreData :: "IRecentlyOpened \<Rightarrow> json" where
  "toStoreData h =
     JObject [(''files'', JArray (map file_data (files h))),
              (''workspaces'', JArray (map workspace_data (workspaces h)))]"

text \<open>
  Modelled from the spec: \<^verbatim>\<open>restoreRecentlyOpened\<close> (same file, not among the sources),
  built from the decoders of its parts. A member of an object is found by key; of two
  members with one key the later one counts, as in the object \<^verbatim>\<open>JSON.parse\<close> builds.
\<close>

definition field :: "string \<Rightarrow> (string \<times> json) list \<Rightarrow> json option" where
  "field k members = map_of (rev members) k"

definition restore_file :: "json \<Rightarrow> IRecentFile option" where
  "restore_file v =
     (case v of
        JObject members \<Rightarrow>
          (case field ''fileUri'' members of
             Some (JString s) \<Rightarrow> Some (RecentFile (URI s))
           | _ \<Rightarrow> None)
      | _ \<Rightarrow> None)"

definition restore_identifier :: "json \<Rightarrow> IWorkspaceIdentifier option" where
  "restore_identifier v =
     (case v of
        JObject members \<Rightarrow>
          (case field ''id'' members of
             Some (JString i) \<Rightarrow>
               (case field ''configPath'' members of
                  Some (JString s) \<Rightarrow> Some \<lparr>id' = i, configPath = URI s\<rparr>
                | _ \<Rightarrow> None)
           | _ \<Rightarrow> None)
      | _ \<Rightarrow> None)"

definition restore_workspace :: "json \<Rightarrow> IRecentWorkspaceOrFolder option" where
  "restore_workspace v =
     (case v of
        JObject members \<Rightarrow>
          (case field ''folderUri'' members of
             Some (JString s) \<Rightarrow> Some (RecentFolder (URI s))
           | _ \<Rightarrow>
               (case field ''workspace'' members of
                  Some w \<Rightarrow> map_option RecentWorkspace (restore_identifier w)
                | None \<Rightarrow> None))
      | _ \<Rightarrow> None)"

text \<open>
  A list of the history: a field that is missing or is not an array decodes to the empty
  list ("unknown/missing fields decode to empty lists rather than failing"); an array
  with an entry of unknown shape is a decode failure.
\<close>

definition restore_list :: "(json \<Rightarrow> 'a option) \<Rightarrow> json option \<Rightarrow> 'a list option" where
  "restore_list restore_entry v =
     (case v of
        Some (JArray entries) \<Rightarrow> those (map restore_entry entries)
      | _ \<Rightarrow> Some [])"

definition decode :: "json \<Rightarrow> IRecentlyOpened option" where
  "decode v =
     (case v of
        JObject members \<Rightarrow>
          (case restore_list restore_workspace (field ''workspaces'' members) of
             None \<Rightarrow> None
           | Some ws \<Rightarrow>
               (case restore_list restore_file (field ''files'' members) of
                  None \<Rightarrow> None
                | Some fs \<Rightarrow> Some \<lparr>workspaces = ws, files = fs\<rparr>))
      | _ \<Rightarrow> None)"

text \<open>
  Modelled from the spec: \<^verbatim>\<open>restoreRecentlyOpened(data, logService)\<close> gives the history and
  the warnings it logs. A decode failure is logged and gives the empty history ("log a
  warning, return an empty history").
\<close>

definition restoreRecentlyOpened :: "json \<Rightarrow> IRecentlyOpened \<times> string list" where
  "restoreRecentlyOpened v =
     (case decode v of
        Some h \<Rightarrow> (h, [])
      | None \<Rightarrow> (no_history, [''Error restoring recently opened entries'']))"

section \<open>The window service\<close>

text \<open>
  What \<^verbatim>\<open>SimpleWindowService\<close> acts on. \<open>storage\<close> is the storage service in its global
  scope (key to text) and \<open>store_calls\<close> the calls of \<^verbatim>\<open>storageService.store\<close> so far, in
  order; \<open>warnings\<close> is what the log service was given; \<open>actions\<close> are the effects of
  \<^verbatim>\<open>openWindow\<close> on the browser and on the editor service, in order.
\<close>

datatype 'e action =
    WindowOpen string
  | LocationHref string
  | OpenEditors "'e list"

record 'e state =
  storage :: "string \<rightharpoonup> string"
  store_calls :: "(string \<times> string) list"
  warnings :: "string list"
  actions :: "'e action list"

definition empty_state :: "'e state" where
  "empty_state = \<lparr>storage = Map.empty, store_calls = [], warnings = [], actions = []\<rparr>"

definition RECENTLY_OPENED_KEY :: string where
  "RECENTLY_OPENED_KEY = ''recently.opened''"

text \<open>
  \<^verbatim>\<open>getRecentlyOpened()\<close>, lines 178-185. \<^verbatim>\<open>if (recentlyOpenedRaw)\<close> is false for an absent
  value and for the empty string. \<^verbatim>\<open>JSON.parse\<close> stands outside any \<^verbatim>\<open>try\<close>: its exception
  rejects the promise, which is the result \<open>Inl\<close>.
\<close>

definition getRecentlyOpened :: "'e state \<Rightarrow> (error + IRecentlyOpened) \<times> 'e state" where
  "getRecentlyOpened st =
     (case storage st RECENTLY_OPENED_KEY of
        None \<Rightarrow> (Inr no_history, st)
      | Some recentlyOpenedRaw \<Rightarrow>
          if recentlyOpenedRaw = [] then (Inr no_history, st)
          else
            (case JSON_parse recentlyOpenedRaw of
               Inl e \<Rightarrow> (Inl e, st)
             | Inr data \<Rightarrow>
                 (Inr (fst (restoreRecentlyOpened data)),
                  st\<lparr>warnings := warnings st @ snd (restoreRecentlyOpened data)\<rparr>)))"

text \<open>\<^verbatim>\<open>saveRecentlyOpened(data)\<close>, lines 224-226: one \<^verbatim>\<open>store\<close> call with the whole history.\<close>

definition saveRecentlyOpened :: "'e state \<Rightarrow> IRecentlyOpened \<Rightarrow> 'e state" where
  "saveRecentlyOpened st data =
     (let blob = JSON_stringify (toStoreData data)
      in st\<lparr>storage := (storage st)(RECENTLY_OPENED_KEY \<mapsto> blob),
            store_calls := store_calls st @ [(RECENTLY_OPENED_KEY, blob)]\<rparr>)"

text \<open>\<^verbatim>\<open>addRecentlyOpened(recents)\<close>, lines 187-204.\<close>

definition addRecentlyOpened :: "'e state \<Rightarrow> IRecent list \<Rightarrow> (error + unit) \<times> 'e state" where
  "addRecentlyOpened st recents =
     (case getRecentlyOpened st of
        (Inl e, st') \<Rightarrow> (Inl e, st')
      | (Inr recentlyOpened, st') \<Rightarrow>
          (Inr (), saveRecentlyOpened st' (foldl addRecent recentlyOpened recents)))"

text \<open>\<^verbatim>\<open>removeFromRecentlyOpened(paths)\<close>, lines 206-212.\<close>

definition removeFromRecentlyOpened :: "'e state \<Rightarrow> URI list \<Rightarrow> (error + unit) \<times> 'e state" where
  "removeFromRecentlyOpened st paths =
     (case getRecentlyOpened st of
        (Inl e, st') \<Rightarrow> (Inl e, st')
      | (Inr recentlyOpened, st') \<Rightarrow>
          (Inr (), saveRecentlyOpened st' (doRemoveFromRecentlyOpened recentlyOpened paths)))"

text \<open>
  \<^verbatim>\<open>IURIToOpen\<close> is a union of three object types, each with one of the keys
  \<^verbatim>\<open>folderUri\<close>, \<^verbatim>\<open>workspaceUri\<close>, \<^verbatim>\<open>fileUri\<close>: of the three tests \<^verbatim>\<open>'...' in uri\<close> of the loop
  exactly one holds.
\<close>

datatype IURIToOpen =
    FolderToOpen URI
  | WorkspaceToOpen URI
  | FileToOpen URI

text \<open>
  What \<^verbatim>\<open>openWindow\<close> reads from its surroundings: the \<^verbatim>\<open>window\<close> configuration section,
  \<^verbatim>\<open>document.location.origin\<close>, and \<^verbatim>\<open>pathsToEditors\<close> (vs/workbench/common/editor, not
  among the sources), taken as a parameter: a promise of editor inputs that may reject.
\<close>

record 'e env =
  windowConfig :: "IWindowSettings option"
  origin :: string
  pathsToEditors :: "IURIToOpen list \<Rightarrow> error + 'e list"

text \<open>
  The loop of \<^verbatim>\<open>openWindow\<close>, lines 246-268, with the decision already taken. A rejection
  of the awaited \<^verbatim>\<open>pathsToEditors\<close> leaves the loop and rejects \<^verbatim>\<open>openWindow\<close>.
\<close>

fun openWindow_loop ::
  "'e env \<Rightarrow> bool \<Rightarrow> 'e state \<Rightarrow> IURIToOpen list \<Rightarrow> (error + unit) \<times> 'e state"
where
  "openWindow_loop e openFolderInNewWindow st [] = (Inr (), st)"
| "openWindow_loop e openFolderInNewWindow st (FolderToOpen uri # uris) =
     (let newAddress = origin e @ ''/?folder='' @ path uri
      in openWindow_loop e openFolderInNewWindow
           (st\<lparr>actions := actions st @
              [if openFolderInNewWindow then WindowOpen newAddress
               else LocationHref newAddress]\<rparr>) uris)"
| "openWindow_loop e openFolderInNewWindow st (WorkspaceToOpen uri # uris) =
     (let newAddress = origin e @ ''/?workspace='' @ path uri
      in openWindow_loop e openFolderInNewWindow
           (st\<lparr>actions := actions st @
              [if openFolderInNewWindow then WindowOpen newAddress
               else LocationHref newAddress]\<rparr>) uris)"
| "openWindow_loop e openFolderInNewWindow st (FileToOpen uri # uris) =
     (case pathsToEditors e [FileToOpen uri] of
        Inl err \<Rightarrow> (Inl err, st)
      | Inr inputs \<Rightarrow>
          openWindow_loop e openFolderInNewWindow
            (st\<lparr>actions := actions st @ [OpenEditors inputs]\<rparr>) uris)"

text \<open>\<^verbatim>\<open>openWindow(_uris, _options)\<close>, lines 244-270.\<close>

definition openWindow ::
  "'e env \<Rightarrow> 'e state \<Rightarrow> IURIToOpen list \<Rightarrow> IOpenSettings option \<Rightarrow> (error + unit) \<times> 'e state"
where
  "openWindow e st uris options =
     openWindow_loop e (shouldOpenNewWindow (windowConfig e) options) st uris"

text \<open>
  The states the service reaches from a storage without a persisted history by calls of
  \<^verbatim>\<open>addRecentlyOpened\<close> and \<^verbatim>\<open>removeFromRecentlyOpened\<close>.
\<close>

inductive reachable :: "'e state \<Rightarrow> bool" where
  start: "storage st RECENTLY_OPENED_KEY = None \<Longrightarrow> reachable st"
| add: "reachable st \<Longrightarrow> reachable (snd (addRecentlyOpened st recents))"
| remove: "reachable st \<Longrightarrow> reachable (snd (removeFromRecentlyOpened st paths))"

section \<open>Notions used to state the properties\<close>

text \<open>The location string an entry is compared by, whatever its kind.\<close>

fun recent_location :: "IRecent \<Rightarrow> string" where
  "recent_location (OfFile file) = file_location file"
| "recent_location (OfWorkspaceOrFolder workspace) = workspace_location workspace"

text \<open>The folder locations and the workspace configuration locations of a list, in order.\<close>

fun folder_locations :: "IRecentWorkspaceOrFolder list \<Rightarrow> string list" where
  "folder_locations [] = []"
| "folder_locations (RecentFolder u # ws) = toString u # folder_locations ws"
| "folder_locations (RecentWorkspace w # ws) = folder_locations ws"

fun config_locations :: "IRecentWorkspaceOrFolder list \<Rightarrow> string list" where
  "config_locations [] = []"
| "config_locations (RecentFolder u # ws) = config_locations ws"
| "config_locations (RecentWorkspace w # ws) = toString (configPath w) # config_locations ws"

text \<open>No two entries of the history, of whatever kinds, have the same location string.\<close>

definition unique_locations :: "IRecentlyOpened \<Rightarrow> bool" where
  "unique_locations h =
     distinct (map file_location (files h) @ map workspace_location (workspaces h))"

text \<open>
  The routing of section 4.2 of the specification, target by target: a folder or
  workspace target becomes a navigation to an address derived from its location, in a
  new window when \<open>openInNewWindow\<close> and in the current one otherwise; a file target is
  handed to the editor-opening collaborator whatever \<open>openInNewWindow\<close> is.
\<close>

fun route_target :: "'e env \<Rightarrow> bool \<Rightarrow> IURIToOpen \<Rightarrow> error + 'e action" where
  "route_target e openInNewWindow (FolderToOpen u) =
     Inr (if openInNewWindow then WindowOpen (origin e @ ''/?folder='' @ path u)
          else LocationHref (origin e @ ''/?folder='' @ path u))"
| "route_target e openInNewWindow (WorkspaceToOpen u) =
     Inr (if openInNewWindow then WindowOpen (origin e @ ''/?workspace='' @ path u)
          else LocationHref (origin e @ ''/?workspace='' @ path u))"
| "route_target e openInNewWindow (FileToOpen u) =
     (case pathsToEditors e [FileToOpen u] of
        Inl err \<Rightarrow> Inl err
      | Inr inputs \<Rightarrow> Inr (OpenEditors inputs))"

text \<open>Performing routed actions in order; the first rejection ends the call.\<close>

fun emit :: "'e state \<Rightarrow> (error + 'e action) list \<Rightarrow> (error + unit) \<times> 'e state" where
  "emit st [] = (Inr (), st)"
| "emit st (Inl err # as) = (Inl err, st)"
| "emit st (Inr a # as) = emit (st\<lparr>actions := actions st @ [a]\<rparr>) as"

text \<open>The inputs given to the editor service, call by call.\<close>

fun editor_inputs :: "'e action list \<Rightarrow> 'e list list" where
  "editor_inputs [] = []"
| "editor_inputs (OpenEditors inputs # as) = inputs # editor_inputs as"
| "editor_inputs (WindowOpen address # as) = editor_inputs as"
| "editor_inputs (LocationHref address # as) = editor_inputs as"

section \<open>Properties of the JSON functions\<close>

lemma digits_shorter: "digits s = Some (ds, r) \<Longrightarrow> length r < length s"
proof -
  assume a: "digits s = Some (ds, r)"
  then have "takeWhile is_digit s \<noteq> []" and r: "r = dropWhile is_digit s"
    by (auto simp: digits_def split: if_splits)
  moreover have "length (takeWhile is_digit s) + length (dropWhile is_digit s) = length s"
    by (metis length_append takeWhile_dropWhile_id)
  ultimately show ?thesis
    by (cases "takeWhile is_digit s") auto
qed

lemma number_int_shorter: "number_int s = Some (ip, r) \<Longrightarrow> length r < length s"
  by (auto simp: number_int_def split: list.splits if_splits dest: digits_shorter)

lemma number_frac_shorter: "number_frac s = Some (fp, r) \<Longrightarrow> length r \<le> length s"
  by (auto simp: number_frac_def split: list.splits if_splits option.splits
      dest!: digits_shorter)

lemma number_exp_shorter: "number_exp s = Some (ep, r) \<Longrightarrow> length r \<le> length s"
  by (auto simp: number_exp_def split: list.splits if_splits option.splits
      dest!: digits_shorter)

lemma parse_number_shorter:
  assumes "parse_number s = Some (lexeme, r)"
  shows "length r < length s"
proof -
  define sign where "sign = (if take 1 s = ''-'' then ''-'' else [])"
  from assms obtain ip s2 fp s3 ep where
    "number_int (drop (length sign) s) = Some (ip, s2)"
    "number_frac s2 = Some (fp, s3)" "number_exp s3 = Some (ep, r)"
    by (auto simp: parse_number_def Let_def sign_def split: option.splits)
  then have "length s2 < length (drop (length sign) s)" "length s3 \<le> length s2"
    "length r \<le> length s3"
    by (auto dest: number_int_shorter number_frac_shorter number_exp_shorter)
  then show ?thesis by simp
qed


lemma parse_value_unfold:
  "skip_ws s = c # cs \<Longrightarrow>
   parse_value s =
     (if c = CHR ''{'' then
        (case skip_ws cs of
           [] \<Rightarrow> Inl SyntaxError
         | d # ds \<Rightarrow>
             if d = CHR ''}'' then Inr (JObject [], ds)
             else (case parse_members cs of
                     Inl e \<Rightarrow> Inl e
                   | Inr (kvs, r) \<Rightarrow> Inr (JObject kvs, r)))
      else if c = CHR ''['' then
        (case skip_ws cs of
           [] \<Rightarrow> Inl SyntaxError
         | d # ds \<Rightarrow>
             if d = CHR '']'' then Inr (JArray [], ds)
             else (case parse_elements cs of
                     Inl e \<Rightarrow> Inl e
                   | Inr (vs, r) \<Rightarrow> Inr (JArray vs, r)))
      else if c = CHR 0x22 then
        (case string_chars cs of
           Inl e \<Rightarrow> Inl e
         | Inr (str, r) \<Rightarrow> Inr (JString str, r))
      else if c = CHR ''-'' \<or> is_digit c then
        (case parse_number (c # cs) of
           None \<Rightarrow> Inl SyntaxError
         | Some (lexeme, r) \<Rightarrow> Inr (JNumber lexeme, r))
      else if take 4 (c # cs) = ''true'' then Inr (JBool True, drop 4 (c # cs))
      else if take 5 (c # cs) = ''false'' then Inr (JBool False, drop 5 (c # cs))
      else if take 4 (c # cs) = ''null'' then Inr (JNull, drop 4 (c # cs))
      else Inl SyntaxError)"
  by (subst parse_value.simps) simp

lemma parse_value_Nil: "skip_ws s = [] \<Longrightarrow> parse_value s = Inl SyntaxError"
  by (subst parse_value.simps) simp

lemma parse_shorter:
  "parse_value s = Inr (v, r) \<Longrightarrow> length r < length s"
  "parse_elements s' = Inr (vs, r') \<Longrightarrow> length r' < length s'"
  "parse_members s'' = Inr (kvs, r'') \<Longrightarrow> length r'' < length s''"
proof (induction s and s' and s'' arbitrary: v r and vs r' and kvs r''
    rule: parse_value_parse_elements_parse_members.induct)
  case (1 s)
  from "1.prems" obtain c cs where sk: "skip_ws s = c # cs"
    by (cases "skip_ws s") (simp_all add: parse_value_Nil)
  then have len: "length cs < length s"
    by (rule skip_ws_Cons_length)
  note eq = "1.prems" [unfolded parse_value_unfold [OF sk]]
  consider (obj) "c = CHR ''{''" | (arr) "c \<noteq> CHR ''{''" "c = CHR ''[''"
    | (str) "c \<noteq> CHR ''{''" "c \<noteq> CHR ''[''" "c = CHR 0x22"
    | (num) "c \<noteq> CHR ''{''" "c \<noteq> CHR ''[''" "c \<noteq> CHR 0x22" "c = CHR ''-'' \<or> is_digit c"
    | (lit) "c \<noteq> CHR ''{''" "c \<noteq> CHR ''[''" "c \<noteq> CHR 0x22" "\<not> (c = CHR ''-'' \<or> is_digit c)"
    by blast
  then show ?case
  proof cases
    case obj
    with eq obtain d ds where sk2: "skip_ws cs = d # ds"
      by (cases "skip_ws cs") simp_all
    show ?thesis
    proof (cases "d = CHR ''}''")
      case True
      with eq obj sk2 have "r = ds" by simp
      with skip_ws_Cons_length [OF sk2] len show ?thesis by simp
    next
      case False
      with eq obj sk2 obtain kvs where "parse_members cs = Inr (kvs, r)"
        by (auto split: sum.splits)
      from "1.IH"(1) [OF sk obj sk2 False this] len show ?thesis by simp
    qed
  next
    case arr
    with eq obtain d ds where sk2: "skip_ws cs = d # ds"
      by (cases "skip_ws cs") simp_all
    show ?thesis
    proof (cases "d = CHR '']''")
      case True
      with eq arr sk2 have "r = ds" by simp
      with skip_ws_Cons_length [OF sk2] len show ?thesis by simp
    next
      case False
      with eq arr sk2 obtain vs where "parse_elements cs = Inr (vs, r)"
        by (auto split: sum.splits)
      from "1.IH"(2) [OF sk arr sk2 False this] len show ?thesis by simp
    qed
  next
    case str
    with eq obtain t where "string_chars cs = Inr (t, r)"
      by (auto split: sum.splits)
    from string_chars_shorter [OF this] len show ?thesis by simp
  next
    case num
    with eq obtain lx where "parse_number (c # cs) = Some (lx, r)"
      by (auto split: option.splits)
    from parse_number_shorter [OF this] len show ?thesis by simp
  next
    case lit
    with eq have "r = drop 4 (c # cs) \<or> r = drop 5 (c # cs)"
      by (auto split: if_splits)
    with len show ?thesis by auto
  qed
next
  case (2 s)
  from "2.prems" obtain v r0 where pv: "parse_value s = Inr (v, r0)"
    by (subst (asm) parse_elements.simps) (auto split: sum.splits)
  have g: "length r0 < length s"
    by (rule "2.IH"(1) [OF pv])
  from "2.prems" pv g obtain c cs where sk: "skip_ws r0 = c # cs"
    by (subst (asm) parse_elements.simps) (cases "skip_ws r0", simp_all)
  from "2.prems" pv g sk have
    eq: "(if c = CHR '','' then
            (case parse_elements cs of
               Inl e \<Rightarrow> Inl e
             | Inr (vs, r') \<Rightarrow> Inr (v # vs, r'))
          else if c = CHR '']'' then Inr ([v], cs)
          else Inl SyntaxError) = Inr (vs, r')"
    by (subst (asm) parse_elements.simps) simp
  show ?case
  proof (cases "c = CHR '',''")
    case True
    with eq obtain ws where "parse_elements cs = Inr (ws, r')"
      by (auto split: sum.splits)
    from "2.IH"(2) [OF pv refl g sk True this] skip_ws_Cons_length [OF sk] g
    show ?thesis by simp
  next
    case False
    with eq have "r' = cs" by (auto split: if_splits)
    with skip_ws_Cons_length [OF sk] g show ?thesis by simp
  qed
next
  case (3 s)
  from "3.prems" obtain c cs where sk: "skip_ws s = c # cs"
    by (subst (asm) parse_members.simps) (cases "skip_ws s", simp_all)
  from "3.prems" sk have c: "c = CHR 0x22"
    by (subst (asm) parse_members.simps) (simp split: if_splits)
  from "3.prems" sk c obtain k r1 where sc: "string_chars cs = Inr (k, r1)"
    by (subst (asm) parse_members.simps) (cases "string_chars cs", auto)
  from "3.prems" sk c sc obtain d ds where sk1: "skip_ws r1 = d # ds"
    by (subst (asm) parse_members.simps) (cases "skip_ws r1", simp_all)
  from "3.prems" sk c sc sk1 have d: "d = CHR '':''"
    by (subst (asm) parse_members.simps) (simp split: if_splits)
  from "3.prems" sk c sc sk1 d obtain v r2 where pv: "parse_value ds = Inr (v, r2)"
    by (subst (asm) parse_members.simps) (cases "parse_value ds", auto)
  have g: "length r2 < length ds"
    by (rule "3.IH"(1) [OF sk c sc refl sk1 d pv])
  from "3.prems" sk c sc sk1 d pv g obtain e es where sk2: "skip_ws r2 = e # es"
    by (subst (asm) parse_members.simps) (cases "skip_ws r2", simp_all)
  from "3.prems" sk c sc sk1 d pv g sk2 have
    eq: "(if e = CHR '','' then
            (case parse_members es of
               Inl x \<Rightarrow> Inl x
             | Inr (kvs, r'') \<Rightarrow> Inr ((k, v) # kvs, r''))
          else if e = CHR ''}'' then Inr ([(k, v)], es)
          else Inl SyntaxError) = Inr (kvs, r'')"
    by (subst (asm) parse_members.simps) simp
  have l1: "length es < length r2" "length ds < length r1" "length r1 < length cs"
    "length cs < length s"
    using skip_ws_Cons_length [OF sk2] skip_ws_Cons_length [OF sk1]
      string_chars_shorter [OF sc] skip_ws_Cons_length [OF sk] by simp_all
  show ?case
  proof (cases "e = CHR '',''")
    case True
    with eq obtain ws where "parse_members es = Inr (ws, r'')"
      by (auto split: sum.splits)
    from "3.IH"(2) [OF sk c sc refl sk1 d pv refl g sk2 True this] l1 g
    show ?thesis by simp
  next
    case False
    with eq have "r'' = es" by (auto split: if_splits)
    with l1 g show ?thesis by simp
  qed
qed

lemma parse_elements_unfold:
  "parse_elements s =
     (case parse_value s of
        Inl e \<Rightarrow> Inl e
      | Inr (v, r) \<Rightarrow>
          (case skip_ws r of
             [] \<Rightarrow> Inl SyntaxError
           | c # cs \<Rightarrow>
               if c = CHR '','' then
                 (case parse_elements cs of
                    Inl e \<Rightarrow> Inl e
                  | Inr (vs, r') \<Rightarrow> Inr (v # vs, r'))
               else if c = CHR '']'' then Inr ([v], cs)
               else Inl SyntaxError))"
proof (cases "parse_value s")
  case (Inl e)
  then show ?thesis by (subst parse_elements.simps) simp
next
  case (Inr p)
  obtain v r where p: "p = (v, r)" by (cases p)
  with Inr have "length r < length s" by (simp add: parse_shorter(1))
  with Inr p show ?thesis by (subst parse_elements.simps) simp
qed

lemma parse_members_unfold:
  "parse_members s =
     (case skip_ws s of
        [] \<Rightarrow> Inl SyntaxError
      | c # cs \<Rightarrow>
          if c = CHR 0x22 then
            (case string_chars cs of
               Inl e \<Rightarrow> Inl e
             | Inr (k, r) \<Rightarrow>
                 (case skip_ws r of
                    [] \<Rightarrow> Inl SyntaxError
                  | d # ds \<Rightarrow>
                      if d = CHR '':'' then
                        (case parse_value ds of
                           Inl e \<Rightarrow> Inl e
                         | Inr (v, r') \<Rightarrow>
                             (case skip_ws r' of
                                [] \<Rightarrow> Inl SyntaxError
                              | e # es \<Rightarrow>
                                  if e = CHR '','' then
                                    (case parse_members es of
                                       Inl x \<Rightarrow> Inl x
                                     | Inr (kvs, r'') \<Rightarrow> Inr ((k, v) # kvs, r''))
                                  else if e = CHR ''}'' then Inr ([(k, v)], es)
                                  else Inl SyntaxError))
                      else Inl SyntaxError))
          else Inl SyntaxError)"
  by (subst parse_members.simps)
    (auto split: list.splits sum.splits dest: parse_shorter(1))

lemma hex_val_hex_digit: "d < 16 \<Longrightarrow> hex_val (hex_digit d) = Some d"
  by (auto simp: hex_val_def hex_digit_def Let_def)

lemma hex4_digits:
  assumes "n < 65536"
  shows "hex4 (hex_digit (n div 4096)) (hex_digit (n div 256 mod 16))
           (hex_digit (n div 16 mod 16)) (hex_digit (n mod 16)) = Some n"
proof -
  have d: "n div 4096 < 16" using assms by simp
  have a: "n div 4096 = n div 256 div 16" "n div 256 = n div 16 div 16"
    by (simp_all add: div_mult2_eq [symmetric])
  have "n div 4096 * 16 + n div 256 mod 16 = n div 256"
    unfolding a(1) by simp
  moreover have "n div 256 * 16 + n div 16 mod 16 = n div 16"
    unfolding a(2) by simp
  ultimately have "((n div 4096 * 16 + n div 256 mod 16) * 16 + n div 16 mod 16) * 16 + n mod 16 = n"
    by simp
  with d show ?thesis
    by (simp add: hex4_def hex_val_hex_digit)
qed

lemma surrogate_arith:
  fixes u v :: nat
  assumes "u < 64" "v < 64"
  shows "(53248 + u * 64 + v) div 4096 = 13"
    and "(53248 + u * 64 + v) div 64 mod 64 = u"
    and "(53248 + u * 64 + v) mod 64 = v"
proof -
  have "u * 64 + v < 4096" using assms by simp
  then show "(53248 + u * 64 + v) div 4096 = 13"
    by (intro div_nat_eqI) simp_all
  have "(53248 + u * 64 + v) div 64 = 832 + u"
    using assms by (intro div_nat_eqI) simp_all
  moreover have "(832 + u) mod 64 = u"
  proof -
    have "832 + u = 13 * 64 + u" by simp
    then show ?thesis using assms by (simp only: mod_mult_self3 mod_mult_self4 mod_less)
  qed
  ultimately show "(53248 + u * 64 + v) div 64 mod 64 = u"
    by simp
  have "53248 + u * 64 + v = (832 + u) * 64 + v" by simp
  then show "(53248 + u * 64 + v) mod 64 = v"
    using assms by (simp only: mod_mult_self3 mod_mult_self4 mod_less)
qed

lemma string_chars_unicode_escape:
  "n < 65536 \<Longrightarrow> string_chars (unicode_escape n @ rest) = cons_unit n (string_chars rest)"
  by (simp add: unicode_escape_def hex4_digits)

lemma unit_bytes_surrogate:
  assumes "is_high [a, b, c] \<or> is_low [a, b, c]"
  shows "surrogate_unit [a, b, c] < 65536"
    and "unit_bytes (surrogate_unit [a, b, c]) = [a, b, c]"
proof -
  define u where "u = (of_char b :: nat) - 128"
  define v where "v = (of_char c :: nat) - 128"
  from assms have a: "a = CHR 0xED" and b: "160 \<le> (of_char b :: nat)" "(of_char b :: nat) \<le> 191"
    and c: "128 \<le> (of_char c :: nat)" "(of_char c :: nat) \<le> 191"
    by (auto simp: is_high_def is_low_def)
  then have u: "u < 64" "128 + u = of_char b" and v: "v < 64" "128 + v = of_char c"
    by (simp_all add: u_def v_def)
  have n: "surrogate_unit [a, b, c] = 53248 + u * 64 + v"
    by (simp add: surrogate_unit_def u_def v_def)
  from u v show "surrogate_unit [a, b, c] < 65536"
    unfolding n by simp
  have "unit_bytes (53248 + u * 64 + v) = [char_of (237 :: nat), char_of (128 + u), char_of (128 + v)]"
    using u(1) v(1) by (simp add: unit_bytes_def surrogate_arith)
  moreover have "char_of (237 :: nat) = CHR 0xED"
  proof -
    have "(237 :: nat) = of_char (CHR 0xED)" by simp
    then show ?thesis by (simp only: char_of_char)
  qed
  ultimately show "unit_bytes (surrogate_unit [a, b, c]) = [a, b, c]"
    unfolding n u(2) v(2) by (simp add: a)
qed

lemma string_chars_byte:
  "128 \<le> (of_char c :: nat) \<Longrightarrow> string_chars (c # rest) = cons_char c (string_chars rest)"
  by auto

lemma string_chars_surrogate:
  assumes "is_high [a, b, c] \<or> is_low [a, b, c]"
  shows "string_chars (a # b # c # rest) = cons_char a (cons_char b (cons_char c (string_chars rest)))"
proof -
  from assms have "128 \<le> (of_char a :: nat)" "128 \<le> (of_char b :: nat)" "128 \<le> (of_char c :: nat)"
    by (auto simp: is_high_def is_low_def)
  then show ?thesis
    by (simp only: string_chars_byte)
qed

lemma string_chars_quote_char:
  assumes "string_chars rest = Inr (t, r)"
  shows "string_chars (quote_char c @ rest) = Inr (c # t, r)"
proof -
  consider (short) "c \<in> {CHR 0x22, CHR 0x5C, CHR 0x08, CHR 0x0C, CHR 0x0A, CHR 0x0D, CHR 0x09}"
    | (ctl) "c \<notin> {CHR 0x22, CHR 0x5C, CHR 0x08, CHR 0x0C, CHR 0x0A, CHR 0x0D, CHR 0x09}"
        "(of_char c :: nat) < 32"
    | (plain) "c \<notin> {CHR 0x22, CHR 0x5C, CHR 0x08, CHR 0x0C, CHR 0x0A, CHR 0x0D, CHR 0x09}"
        "\<not> (of_char c :: nat) < 32"
    by blast
  then show ?thesis
  proof cases
    case short
    with assms show ?thesis
      by (auto simp: quote_char_def simple_escape_def cons_char_def)
  next
    case ctl
    define n where "n = (of_char c :: nat)"
    have n: "n < 32" using ctl by (simp add: n_def)
    then have d: "n div 16 < 16" "n mod 16 < 16" by simp_all
    have z: "hex_val (CHR ''0'') = Some 0" by (simp add: hex_val_def)
    have h: "hex4 (CHR ''0'') (CHR ''0'') (hex_digit (n div 16)) (hex_digit (n mod 16)) = Some n"
      using d by (simp add: hex4_def hex_val_hex_digit z)
    have c: "unit_bytes n = [c]" using n by (simp add: unit_bytes_def n_def)
    from ctl have q: "quote_char c = [CHR 0x5C, CHR ''u'', CHR ''0'', CHR ''0'',
         hex_digit (n div 16), hex_digit (n mod 16)]"
      by (simp add: quote_char_def n_def)
    show ?thesis
      using assms by (simp add: q h c cons_unit_def)
  next
    case plain
    with assms show ?thesis
      by (simp add: quote_char_def cons_char_def)
  qed
qed

lemma string_chars_quote:
  "string_chars (quote_chars s @ CHR 0x22 # r) = Inr (s, r)"
proof (induction s rule: quote_chars.induct)
  case (1 a b c rest)
  show ?case
  proof (cases "is_high [a, b, c]")
    case high: True
    show ?thesis
    proof (cases "is_low rest")
      case True
      then obtain d e f rest' where rest: "rest = d # e # f # rest'" and low: "is_low [d, e, f]"
        by (auto simp: is_low_def split: list.splits)
      from "1.IH"(1) [OF high True] rest
      have "string_chars (quote_chars rest' @ CHR 0x22 # r) = Inr (rest', r)" by simp
      with high True rest low show ?thesis
        by (simp add: string_chars_surrogate cons_char_def del: string_chars.simps)
    next
      case False
      with high "1.IH"(2) show ?thesis
        by (simp add: string_chars_unicode_escape unit_bytes_surrogate cons_unit_def
            del: string_chars.simps)
    qed
  next
    case not_high: False
    show ?thesis
    proof (cases "is_low [a, b, c]")
      case True
      with not_high "1.IH"(3) show ?thesis
        by (simp add: string_chars_unicode_escape unit_bytes_surrogate cons_unit_def
            del: string_chars.simps)
    next
      case False
      with not_high "1.IH"(4) show ?thesis
        by (simp add: string_chars_quote_char del: string_chars.simps)
    qed
  qed
next
  case (2 a b)
  then show ?case
    by (simp add: string_chars_quote_char del: string_chars.simps)
next
  case (3 a)
  show ?case
    using string_chars_quote_char [of "CHR 0x22 # r" "[]" r a] by simp
next
  case 4
  show ?case by simp
qed

lemma first_ok_stringify: "number_free v \<Longrightarrow> first_ok (JSON_stringify v)"
  by (cases v) (auto simp: first_ok_def is_ws_def quote_def)

lemma first_ok_skip_ws: "first_ok s \<Longrightarrow> skip_ws (s @ r) = s @ r"
  by (cases s) (auto simp: first_ok_def skip_ws_def)

lemma first_ok_join:
  "vs \<noteq> [] \<Longrightarrow> first_ok (hd vs) \<Longrightarrow> first_ok (join_commas vs @ r)"
  by (induction vs rule: join_commas.induct) (auto simp: first_ok_def split: list.splits)

lemma parse_elements_join:
  assumes "vs \<noteq> []"
    and "\<And>v r. v \<in> set vs \<Longrightarrow> parse_value (JSON_stringify v @ r) = Inr (v, r)"
  shows "parse_elements (join_commas (map JSON_stringify vs) @ CHR '']'' # r) = Inr (vs, r)"
  using assms
proof (induction vs)
  case Nil
  then show ?case by simp
next
  case (Cons v vs)
  show ?case
  proof (cases vs)
    case Nil
    then show ?thesis
      using Cons.prems(2) [of v "CHR '']'' # r"]
      by (subst parse_elements_unfold) (simp add: skip_ws_def is_ws_def)
  next
    case (Cons w ws)
    then have "parse_elements (join_commas (map JSON_stringify vs) @ CHR '']'' # r) = Inr (vs, r)"
      using Cons.IH Cons.prems(2) by simp
    then show ?thesis
      using Cons Cons.prems(2) [of v "CHR '','' # join_commas (map JSON_stringify vs) @ CHR '']'' # r"]
      by (subst parse_elements_unfold) (simp add: skip_ws_def is_ws_def)
  qed
qed


lemma parse_members_step:
  assumes "parse_value (JSON_stringify v @ rest) = Inr (v, rest)"
  shows "parse_members (member_text (k, v) @ rest) =
     (case skip_ws rest of
        [] \<Rightarrow> Inl SyntaxError
      | e # es \<Rightarrow>
          if e = CHR '','' then
            (case parse_members es of
               Inl x \<Rightarrow> Inl x
             | Inr (kvs, r'') \<Rightarrow> Inr ((k, v) # kvs, r''))
          else if e = CHR ''}'' then Inr ([(k, v)], es)
          else Inl SyntaxError)"
  using assms
  by (subst parse_members_unfold)
    (simp add: member_text_def quote_def skip_ws_def is_ws_def string_chars_quote)

lemma parse_members_join:
  assumes "kvs \<noteq> []"
    and "\<And>k v r. (k, v) \<in> set kvs \<Longrightarrow> parse_value (JSON_stringify v @ r) = Inr (v, r)"
  shows "parse_members (join_commas (map member_text kvs) @ CHR ''}'' # r) = Inr (kvs, r)"
  using assms
proof (induction kvs)
  case Nil
  then show ?case by simp
next
  case (Cons kv kvs)
  obtain k v where kv: "kv = (k, v)" by (cases kv)
  show ?case
  proof (cases kvs)
    case Nil
    then show ?thesis
      using parse_members_step [OF Cons.prems(2) [of k v "CHR ''}'' # r"], of k] kv
      by (simp add: skip_ws_def is_ws_def)
  next
    case (Cons w ws)
    have ih: "parse_members (join_commas (map member_text kvs) @ CHR ''}'' # r) = Inr (kvs, r)"
    proof (rule Cons.IH)
      show "kvs \<noteq> []" using Cons by simp
    next
      fix k v r
      assume "(k, v) \<in> set kvs"
      then show "parse_value (JSON_stringify v @ r) = Inr (v, r)"
        using Cons.prems(2) [of k v r] by simp
    qed
    show ?thesis
      using Cons kv ih
        parse_members_step [OF Cons.prems(2)
          [of k v "CHR '','' # join_commas (map member_text kvs) @ CHR ''}'' # r"], of k]
      by (simp add: skip_ws_def is_ws_def)
  qed
qed

lemma JSON_stringify_object:
  "JSON_stringify (JObject kvs) = CHR ''{'' # join_commas (map member_text kvs) @ ''}''"
  by (simp add: member_text_def [abs_def] case_prod_unfold)

lemma parse_value_stringify:
  "number_free v \<Longrightarrow> parse_value (JSON_stringify v @ r) = Inr (v, r)"
proof (induction v arbitrary: r)
  case JNull
  show ?case by (subst parse_value.simps) (simp add: skip_ws_def is_ws_def is_digit_def)
next
  case (JBool b)
  show ?case by (subst parse_value.simps) (simp add: skip_ws_def is_ws_def is_digit_def)
next
  case (JNumber x)
  then show ?case by simp
next
  case (JString s)
  show ?case
    by (subst parse_value.simps) (simp add: quote_def skip_ws_def is_ws_def string_chars_quote)
next
  case (JArray vs)
  show ?case
  proof (cases "vs = []")
    case True
    then show ?thesis
      by (subst parse_value.simps) (simp add: skip_ws_def is_ws_def)
  next
    case False
    have el: "parse_elements (join_commas (map JSON_stringify vs) @ CHR '']'' # r) = Inr (vs, r)"
      using False JArray by (intro parse_elements_join) (auto simp: list_all_iff)
    have "first_ok (hd (map JSON_stringify vs))"
      using False JArray.prems by (cases vs) (auto intro: first_ok_stringify)
    then have "first_ok (join_commas (map JSON_stringify vs) @ CHR '']'' # r)"
      using False by (intro first_ok_join) simp_all
    then obtain d ds where
      d: "join_commas (map JSON_stringify vs) @ CHR '']'' # r = d # ds" "\<not> is_ws d" "d \<noteq> CHR '']''"
      by (auto simp: first_ok_def split: list.splits)
    show ?thesis
      using el d by (subst parse_value.simps) (simp add: skip_ws_def is_ws_def)
  qed
next
  case (JObject kvs)
  show ?case
  proof (cases "kvs = []")
    case True
    then show ?thesis
      by (subst parse_value.simps) (simp add: skip_ws_def is_ws_def)
  next
    case False
    have el: "parse_members (join_commas (map member_text kvs) @ CHR ''}'' # r) = Inr (kvs, r)"
      using False JObject by (intro parse_members_join) (auto simp: list_all_iff)
    obtain kv rest where "kvs = kv # rest" using False by (cases kvs) auto
    then have "first_ok (hd (map member_text kvs))"
      by (simp add: first_ok_def member_text_def quote_def is_ws_def)
    then have "first_ok (join_commas (map member_text kvs) @ CHR ''}'' # r)"
      using False by (intro first_ok_join) simp_all
    then obtain d ds where
      d: "join_commas (map member_text kvs) @ CHR ''}'' # r = d # ds" "\<not> is_ws d" "d \<noteq> CHR ''}''"
      by (auto simp: first_ok_def split: list.splits)
    have "parse_value (CHR ''{'' # join_commas (map member_text kvs) @ CHR ''}'' # r)
        = Inr (JObject kvs, r)"
      using el d by (subst parse_value.simps) (simp add: skip_ws_def is_ws_def)
    then show ?thesis
      by (simp add: JSON_stringify_object del: JSON_stringify.simps)
  qed
qed

theorem JSON_parse_stringify: "number_free v \<Longrightarrow> JSON_parse (JSON_stringify v) = Inr v"
  using parse_value_stringify [of v "[]"] by (simp add: JSON_parse_def skip_ws_def)

section \<open>Properties of the codec and of the stored history\<close>


lemma number_free_toStoreData: "number_free (toStoreData h)"
proof -
  have "number_free (file_data f)" for f by (cases f) simp
  moreover have "number_free (workspace_data w)" for w by (cases w) simp_all
  ultimately show ?thesis
    by (simp add: toStoreData_def list_all_iff)
qed

lemma JSON_parse_toStoreData: "JSON_parse (JSON_stringify (toStoreData h)) = Inr (toStoreData h)"
  by (rule JSON_parse_stringify) (rule number_free_toStoreData)

lemma JSON_stringify_toStoreData_nonempty: "JSON_stringify (toStoreData h) \<noteq> []"
  by (simp add: toStoreData_def)

lemma restore_file_data: "restore_file (file_data f) = Some f"
  by (cases f) (simp add: restore_file_def field_def)

lemma restore_workspace_data: "restore_workspace (workspace_data w) = Some w"
  by (cases w) (simp_all add: restore_workspace_def restore_identifier_def field_def)

lemma those_restore_files: "those (map (restore_file \<circ> file_data) fs) = Some fs"
  by (induction fs) (simp_all add: restore_file_data)

lemma those_restore_workspaces: "those (map (restore_workspace \<circ> workspace_data) ws) = Some ws"
  by (induction ws) (simp_all add: restore_workspace_data)

lemma decode_toStoreData: "decode (toStoreData h) = Some h"
  by (simp add: decode_def toStoreData_def field_def restore_list_def
      those_restore_files those_restore_workspaces)

lemma restoreRecentlyOpened_toStoreData: "restoreRecentlyOpened (toStoreData h) = (h, [])"
  by (simp add: restoreRecentlyOpened_def decode_toStoreData)

lemma getRecentlyOpened_saveRecentlyOpened:
  "getRecentlyOpened (saveRecentlyOpened st h) = (Inr h, saveRecentlyOpened st h)"
  by (simp add: getRecentlyOpened_def saveRecentlyOpened_def Let_def
      JSON_parse_toStoreData JSON_stringify_toStoreData_nonempty
      restoreRecentlyOpened_toStoreData)

lemma getRecentlyOpened_storage: "storage (snd (getRecentlyOpened st)) = storage st"
  by (simp add: getRecentlyOpened_def split: option.splits sum.splits)

lemma getRecentlyOpened_store_calls: "store_calls (snd (getRecentlyOpened st)) = store_calls st"
  by (simp add: getRecentlyOpened_def split: option.splits sum.splits)

lemma addRecentlyOpened_Inr:
  assumes "fst (getRecentlyOpened st) = Inr h"
  shows "addRecentlyOpened st recents =
    (Inr (), saveRecentlyOpened (snd (getRecentlyOpened st)) (foldl addRecent h recents))"
  using assms by (cases "getRecentlyOpened st") (simp add: addRecentlyOpened_def)

lemma removeFromRecentlyOpened_Inr:
  assumes "fst (getRecentlyOpened st) = Inr h"
  shows "removeFromRecentlyOpened st paths =
    (Inr (), saveRecentlyOpened (snd (getRecentlyOpened st)) (doRemoveFromRecentlyOpened h paths))"
  using assms by (cases "getRecentlyOpened st") (simp add: removeFromRecentlyOpened_def)

lemma get_after_add:
  assumes "fst (getRecentlyOpened st) = Inr h"
  shows "fst (getRecentlyOpened (snd (addRecentlyOpened st recents))) = Inr (foldl addRecent h recents)"
  by (simp add: addRecentlyOpened_Inr [OF assms] getRecentlyOpened_saveRecentlyOpened)

lemma get_after_remove:
  assumes "fst (getRecentlyOpened st) = Inr h"
  shows "fst (getRecentlyOpened (snd (removeFromRecentlyOpened st paths)))
    = Inr (doRemoveFromRecentlyOpened h paths)"
  by (simp add: removeFromRecentlyOpened_Inr [OF assms] getRecentlyOpened_saveRecentlyOpened)

lemma store_calls_after_add:
  assumes "fst (getRecentlyOpened st) = Inr h"
  shows "store_calls (snd (addRecentlyOpened st recents)) =
    store_calls st @ [(RECENTLY_OPENED_KEY, JSON_stringify (toStoreData (foldl addRecent h recents)))]"
  by (simp add: addRecentlyOpened_Inr [OF assms] saveRecentlyOpened_def Let_def
      getRecentlyOpened_store_calls)

lemma store_calls_after_remove:
  assumes "fst (getRecentlyOpened st) = Inr h"
  shows "store_calls (snd (removeFromRecentlyOpened st paths)) =
    store_calls st @
      [(RECENTLY_OPENED_KEY, JSON_stringify (toStoreData (doRemoveFromRecentlyOpened h paths)))]"
  by (simp add: removeFromRecentlyOpened_Inr [OF assms] saveRecentlyOpened_def Let_def
      getRecentlyOpened_store_calls)

lemma getRecentlyOpened_no_blob:
  "storage st RECENTLY_OPENED_KEY = None \<Longrightarrow> getRecentlyOpened st = (Inr no_history, st)"
  by (simp add: getRecentlyOpened_def)


lemma doRemove_single:
  "doRemoveFromRecentlyOpened h [u] =
     \<lparr>workspaces = filter (\<lambda>w. workspace_location w \<noteq> toString u) (workspaces h),
      files = filter (\<lambda>f. file_location f \<noteq> toString u) (files h)\<rparr>"
  by (simp add: doRemoveFromRecentlyOpened_def eq_commute)

lemma doRemove_set:
  "doRemoveFromRecentlyOpened h paths =
     \<lparr>workspaces = filter (\<lambda>w. workspace_location w \<notin> toString ` set paths) (workspaces h),
      files = filter (\<lambda>f. file_location f \<notin> toString ` set paths) (files h)\<rparr>"
proof -
  have "list_ex (\<lambda>p. toString p = x) paths \<longleftrightarrow> x \<in> toString ` set paths" for x
    by (auto simp: list_ex_iff)
  then show ?thesis
    by (simp add: doRemoveFromRecentlyOpened_def)
qed

lemma files_addRecent:
  "files (addRecent h r) =
     (case r of OfFile f \<Rightarrow> [f] | OfWorkspaceOrFolder w \<Rightarrow> [])
       @ filter (\<lambda>f. file_location f \<noteq> recent_location r) (files h)"
proof (cases r)
  case (OfFile f)
  then show ?thesis by (simp add: doRemove_single Let_def file_location_def)
next
  case (OfWorkspaceOrFolder w)
  then show ?thesis by (cases w) (simp_all add: doRemove_single Let_def)
qed

lemma workspaces_addRecent:
  "workspaces (addRecent h r) =
     (case r of OfFile f \<Rightarrow> [] | OfWorkspaceOrFolder w \<Rightarrow> [w])
       @ filter (\<lambda>w. workspace_location w \<noteq> recent_location r) (workspaces h)"
proof (cases r)
  case (OfFile f)
  then show ?thesis by (simp add: doRemove_single Let_def file_location_def)
next
  case (OfWorkspaceOrFolder w)
  then show ?thesis by (cases w) (simp_all add: doRemove_single Let_def)
qed

lemma distinct_filter_both:
  assumes "distinct (map f xs @ map g ys)"
  shows "distinct (map f (filter P xs) @ map g (filter Q ys))"
  using assms by (auto simp: distinct_map_filter)

lemma unique_addRecent:
  assumes "unique_locations h"
  shows "unique_locations (addRecent h r)"
proof -
  let ?x = "recent_location r"
  let ?fs = "filter (\<lambda>f. file_location f \<noteq> ?x) (files h)"
  let ?ws = "filter (\<lambda>w. workspace_location w \<noteq> ?x) (workspaces h)"
  have d: "distinct (map file_location ?fs @ map workspace_location ?ws)"
    using assms unfolding unique_locations_def by (rule distinct_filter_both)
  have n: "?x \<notin> set (map file_location ?fs)" "?x \<notin> set (map workspace_location ?ws)"
    by auto
  have "distinct (map file_location (files (addRecent h r))
      @ map workspace_location (workspaces (addRecent h r)))"
    unfolding files_addRecent workspaces_addRecent
  proof (cases r)
    case (OfFile f)
    with d n show "distinct
       (map file_location ((case r of OfFile f \<Rightarrow> [f] | OfWorkspaceOrFolder w \<Rightarrow> []) @ ?fs) @
        map workspace_location ((case r of OfFile f \<Rightarrow> [] | OfWorkspaceOrFolder w \<Rightarrow> [w]) @ ?ws))"
      by simp
  next
    case (OfWorkspaceOrFolder w)
    with d n show "distinct
       (map file_location ((case r of OfFile f \<Rightarrow> [f] | OfWorkspaceOrFolder w \<Rightarrow> []) @ ?fs) @
        map workspace_location ((case r of OfFile f \<Rightarrow> [] | OfWorkspaceOrFolder w \<Rightarrow> [w]) @ ?ws))"
      by simp
  qed
  then show ?thesis by (simp only: unique_locations_def)
qed

lemma unique_foldl_addRecent:
  "unique_locations h \<Longrightarrow> unique_locations (foldl addRecent h recents)"
  by (induction recents arbitrary: h) (simp_all add: unique_addRecent)

lemma unique_doRemove:
  "unique_locations h \<Longrightarrow> unique_locations (doRemoveFromRecentlyOpened h paths)"
proof -
  assume "unique_locations h"
  then have "distinct
     (map file_location (filter (\<lambda>f. file_location f \<notin> toString ` set paths) (files h)) @
      map workspace_location
        (filter (\<lambda>w. workspace_location w \<notin> toString ` set paths) (workspaces h)))"
    unfolding unique_locations_def by (rule distinct_filter_both)
  then show ?thesis
    by (simp add: unique_locations_def doRemove_set)
qed

lemma unique_no_history: "unique_locations no_history"
  by (simp add: unique_locations_def no_history_def)

lemma reachable_unique:
  "reachable st \<Longrightarrow> \<exists>h. fst (getRecentlyOpened st) = Inr h \<and> unique_locations h"
proof (induction rule: reachable.induct)
  case (start st)
  then show ?case by (simp add: getRecentlyOpened_no_blob unique_no_history)
next
  case (add st recents)
  then obtain h where h: "fst (getRecentlyOpened st) = Inr h" "unique_locations h" by blast
  then show ?case
    by (simp add: get_after_add unique_foldl_addRecent)
next
  case (remove st paths)
  then obtain h where h: "fst (getRecentlyOpened st) = Inr h" "unique_locations h" by blast
  then show ?case
    by (simp add: get_after_remove unique_doRemove)
qed

lemma folder_locations_filter:
  "folder_locations ws =
     map workspace_location (filter (\<lambda>w. case w of RecentFolder u \<Rightarrow> True | RecentWorkspace i \<Rightarrow> False) ws)"
  by (induction ws rule: folder_locations.induct) simp_all

lemma config_locations_filter:
  "config_locations ws =
     map workspace_location (filter (\<lambda>w. case w of RecentFolder u \<Rightarrow> False | RecentWorkspace i \<Rightarrow> True) ws)"
  by (induction ws rule: config_locations.induct) simp_all

lemma unique_by_kind:
  assumes "unique_locations h"
  shows "distinct (map file_location (files h))"
    and "distinct (folder_locations (workspaces h))"
    and "distinct (config_locations (workspaces h))"
  using assms
  by (simp_all add: unique_locations_def folder_locations_filter config_locations_filter
      distinct_map_filter)

section \<open>Auxiliary facts about the service\<close>

lemma JSON_parse_Nil: "JSON_parse [] = Inl SyntaxError"
  by (simp add: JSON_parse_def parse_value.simps skip_ws_def)

lemma getRecentlyOpened_empty_state:
  "fst (getRecentlyOpened (empty_state :: 'e state)) = Inr no_history"
  by (simp add: getRecentlyOpened_def empty_state_def)

lemma openWindow_loop_frame:
  "storage (snd (openWindow_loop e d st uris)) = storage st
   \<and> store_calls (snd (openWindow_loop e d st uris)) = store_calls st
   \<and> warnings (snd (openWindow_loop e d st uris)) = warnings st"
  by (induction e d st uris rule: openWindow_loop.induct)
    (simp_all add: Let_def split: sum.splits)

lemma fst_getRecentlyOpened_cong:
  "storage st = storage st' \<Longrightarrow> fst (getRecentlyOpened st) = fst (getRecentlyOpened st')"
  by (simp add: getRecentlyOpened_def split: option.splits sum.splits)

lemma openWindow_loop_emit:
  "openWindow_loop e d st uris = emit st (map (route_target e d) uris)"
  by (induction e d st uris rule: openWindow_loop.induct)
    (simp_all add: Let_def split: sum.splits)

lemma editor_inputs_append:
  "editor_inputs (as @ bs) = editor_inputs as @ editor_inputs bs"
  by (induction as rule: editor_inputs.induct) simp_all

lemma editor_inputs_navigation:
  "editor_inputs [if d then WindowOpen a else LocationHref a] = []"
  by simp

lemma emit_independent:
  "editor_inputs (actions st) = editor_inputs (actions st') \<Longrightarrow>
   fst (emit st (map (route_target e d) uris)) = fst (emit st' (map (route_target e d') uris))
   \<and> editor_inputs (actions (snd (emit st (map (route_target e d) uris))))
       = editor_inputs (actions (snd (emit st' (map (route_target e d') uris))))"
proof (induction uris arbitrary: st st')
  case Nil
  then show ?case by simp
next
  case (Cons u uris)
  show ?case
  proof (cases u)
    case (FolderToOpen x)
    let ?a = "\<lambda>b. if b then WindowOpen (origin e @ ''/?folder='' @ path x)
                    else LocationHref (origin e @ ''/?folder='' @ path x)"
    have "editor_inputs (actions (st\<lparr>actions := actions st @ [?a d]\<rparr>))
        = editor_inputs (actions (st'\<lparr>actions := actions st' @ [?a d']\<rparr>))"
      using Cons.prems
      by (simp add: editor_inputs_append editor_inputs_navigation split del: if_split)
    from Cons.IH [OF this] FolderToOpen show ?thesis
      by (simp split del: if_split)
  next
    case (WorkspaceToOpen x)
    let ?a = "\<lambda>b. if b then WindowOpen (origin e @ ''/?workspace='' @ path x)
                    else LocationHref (origin e @ ''/?workspace='' @ path x)"
    have "editor_inputs (actions (st\<lparr>actions := actions st @ [?a d]\<rparr>))
        = editor_inputs (actions (st'\<lparr>actions := actions st' @ [?a d']\<rparr>))"
      using Cons.prems
      by (simp add: editor_inputs_append editor_inputs_navigation split del: if_split)
    from Cons.IH [OF this] WorkspaceToOpen show ?thesis
      by (simp split del: if_split)
  next
    case (FileToOpen x)
    show ?thesis
    proof (cases "pathsToEditors e [FileToOpen x]")
      case (Inl err)
      with FileToOpen Cons.prems show ?thesis by simp
    next
      case (Inr inputs)
      have "editor_inputs (actions (st\<lparr>actions := actions st @ [OpenEditors inputs]\<rparr>))
          = editor_inputs (actions (st'\<lparr>actions := actions st' @ [OpenEditors inputs]\<rparr>))"
        using Cons.prems by (simp add: editor_inputs_append)
      from Cons.IH [OF this] FileToOpen Inr show ?thesis
        by simp
    qed
  qed
qed

lemma foldl_addRecent_two_folders:
  "foldl addRecent no_history
     [OfWorkspaceOrFolder (RecentFolder a), OfWorkspaceOrFolder (RecentFolder b)] =
     \<lparr>workspaces = (if toString a = toString b then [RecentFolder b]
                     else [RecentFolder b, RecentFolder a]),
      files = []\<rparr>"
  by (simp add: no_history_def doRemove_single Let_def)

lemma add_folder_twice:
  assumes "fst (getRecentlyOpened st) = Inr h"
  shows "fst (getRecentlyOpened
            (snd (addRecentlyOpened
               (snd (addRecentlyOpened st [OfWorkspaceOrFolder (RecentFolder x)]))
               [OfWorkspaceOrFolder (RecentFolder x)]))) =
         Inr \<lparr>workspaces =
                RecentFolder x # filter (\<lambda>w. workspace_location w \<noteq> toString x) (workspaces h),
              files = filter (\<lambda>f. file_location f \<noteq> toString x) (files h)\<rparr>"
  by (simp add: get_after_add [OF get_after_add [OF assms]] doRemove_single Let_def)

lemma doRemove_absent:
  assumes "list_all (\<lambda>p. toString p \<notin> set (map file_location (files h))
      \<and> toString p \<notin> set (map workspace_location (workspaces h))) paths"
  shows "doRemoveFromRecentlyOpened h paths = h"
proof -
  have "filter (\<lambda>w. workspace_location w \<notin> toString ` set paths) (workspaces h) = workspaces h"
    using assms by (fastforce simp: list_all_iff filter_id_conv image_iff)
  moreover have "filter (\<lambda>f. file_location f \<notin> toString ` set paths) (files h) = files h"
    using assms by (fastforce simp: list_all_iff filter_id_conv image_iff)
  ultimately show ?thesis by (simp add: doRemove_set)
qed

section \<open>Properties of the routing decision\<close>

text \<open>
  C1. \<^verbatim>\<open>shouldOpenNewWindow\<close> is the precedence table of the specification, for every
  options object (also an absent one) and every configuration value (also an absent
  section or setting, which count as \<^verbatim>\<open>'default'\<close>): force-new without force-reuse gives
  true; otherwise, with neither flag, \<^verbatim>\<open>'on'\<close> gives true and \<^verbatim>\<open>'off'\<close> gives false;
  everything else gives false.
\<close>

theorem shouldOpenNewWindow_table:
  "shouldOpenNewWindow config (Some opts) =
     decideNewWindow (truthy (forceNewWindow opts)) (truthy (forceReuseWindow opts))
       (openFolderInNewWindowConfig config)
   \<and> shouldOpenNewWindow config None =
     decideNewWindow False False (openFolderInNewWindowConfig config)
   \<and> shouldOpenNewWindow (Some \<lparr>openFoldersInNewWindow = Some ''on''\<rparr>)
        (Some \<lparr>forceNewWindow = None, forceReuseWindow = Some True\<rparr>) = False
   \<and> shouldOpenNewWindow (Some \<lparr>openFoldersInNewWindow = Some ''on''\<rparr>) None = True
   \<and> shouldOpenNewWindow (Some \<lparr>openFoldersInNewWindow = Some ''default''\<rparr>) None = False"
  by (simp add: shouldOpenNewWindow_def decideNewWindow_def openFolderInNewWindowConfig_def
      truthy_def Let_def)

text \<open>
  C2, as the code has it. With both force flags set the guard
  \<^verbatim>\<open>!!forceNewWindow && !forceReuseWindow\<close> is false and the configuration is not consulted:
  the result is false for every configuration value, so force-reuse wins.
\<close>

theorem shouldOpenNewWindow_both_flags:
  "shouldOpenNewWindow config
     (Some \<lparr>forceNewWindow = Some True, forceReuseWindow = Some True\<rparr>) = False"
  by (simp add: shouldOpenNewWindow_def truthy_def Let_def)

text \<open>
  C2 as the specification states it fails: both flags set, configuration \<^verbatim>\<open>'on'\<close>, and
  the decision is to reuse the window.
\<close>

theorem shouldOpenNewWindow_both_flags_counterexample:
  "shouldOpenNewWindow (Some \<lparr>openFoldersInNewWindow = Some ''on''\<rparr>)
     (Some \<lparr>forceNewWindow = Some True, forceReuseWindow = Some True\<rparr>) \<noteq> True"
  by (simp add: shouldOpenNewWindow_def truthy_def Let_def)

section \<open>The claims about the recent history and the window router\<close>

text \<open>
  C3, as far as the code goes. When the persisted blob is JSON text, \<^verbatim>\<open>getRecentlyOpened\<close>
  does not raise, whatever the shape of the value: it returns what the decoder restores
  from the parsed value and logs what the decoder logs; a value of unknown shape is
  logged as a warning and gives the empty history. The storage is not written.
\<close>

theorem getRecentlyOpened_json_blob:
  assumes "storage st RECENTLY_OPENED_KEY = Some raw" and "JSON_parse raw = Inr data"
  shows "fst (getRecentlyOpened st) = Inr (fst (restoreRecentlyOpened data))
     \<and> fst (getRecentlyOpened st) = Inr (case decode data of Some h \<Rightarrow> h | None \<Rightarrow> no_history)
     \<and> warnings (snd (getRecentlyOpened st)) =
         warnings st @ (case decode data of Some h \<Rightarrow> []
                        | None \<Rightarrow> [''Error restoring recently opened entries''])
     \<and> storage (snd (getRecentlyOpened st)) = storage st"
proof -
  from assms(2) have "raw \<noteq> []" by (auto simp: JSON_parse_Nil)
  with assms show ?thesis
    by (simp add: getRecentlyOpened_def restoreRecentlyOpened_def split: option.splits)
qed

text \<open>
  Two blobs. \<^verbatim>\<open>[1,2]\<close> is JSON text of unknown shape: the call returns the empty history
  and logs one warning. \<^verbatim>\<open>{"files":[{"fileUri":"\u0100"}]}\<close> holds a file whose location is
  the one code unit \<^verbatim>\<open>0x100\<close>, written as an escape: the call returns that file and logs
  nothing.
\<close>

theorem getRecentlyOpened_json_blob_witness:
  "JSON_parse ''[1,2]'' = Inr (JArray [JNumber ''1'', JNumber ''2''])
   \<and> fst (getRecentlyOpened
        ((empty_state :: unit state)\<lparr>storage := [RECENTLY_OPENED_KEY \<mapsto> ''[1,2]'']\<rparr>))
      = Inr \<lparr>workspaces = [], files = []\<rparr>
   \<and> warnings (snd (getRecentlyOpened
        ((empty_state :: unit state)\<lparr>storage := [RECENTLY_OPENED_KEY \<mapsto> ''[1,2]'']\<rparr>)))
      = [''Error restoring recently opened entries'']
   \<and> JSON_parse (''{'' @ [CHR 0x22] @ ''files'' @ [CHR 0x22] @ '':[{'' @ [CHR 0x22] @ ''fileUri''
        @ [CHR 0x22] @ '':'' @ [CHR 0x22, CHR 0x5C] @ ''u0100'' @ [CHR 0x22] @ ''}]}'')
      = Inr (JObject [(''files'', JArray [JObject [(''fileUri'', JString [CHR 0xC4, CHR 0x80])]])])
   \<and> fst (getRecentlyOpened
        ((empty_state :: unit state)\<lparr>storage := [RECENTLY_OPENED_KEY \<mapsto>
           ''{'' @ [CHR 0x22] @ ''files'' @ [CHR 0x22] @ '':[{'' @ [CHR 0x22] @ ''fileUri''
           @ [CHR 0x22] @ '':'' @ [CHR 0x22, CHR 0x5C] @ ''u0100'' @ [CHR 0x22] @ ''}]}'']\<rparr>))
      = Inr \<lparr>workspaces = [], files = [RecentFile (URI [CHR 0xC4, CHR 0x80])]\<rparr>
   \<and> warnings (snd (getRecentlyOpened
        ((empty_state :: unit state)\<lparr>storage := [RECENTLY_OPENED_KEY \<mapsto>
           ''{'' @ [CHR 0x22] @ ''files'' @ [CHR 0x22] @ '':[{'' @ [CHR 0x22] @ ''fileUri''
           @ [CHR 0x22] @ '':'' @ [CHR 0x22, CHR 0x5C] @ ''u0100'' @ [CHR 0x22] @ ''}]}'']\<rparr>)))
      = []"
proof -
  let ?blob = "''{'' @ [CHR 0x22] @ ''files'' @ [CHR 0x22] @ '':[{'' @ [CHR 0x22] @ ''fileUri''
        @ [CHR 0x22] @ '':'' @ [CHR 0x22, CHR 0x5C] @ ''u0100'' @ [CHR 0x22] @ ''}]}''"
  have p: "JSON_parse ''[1,2]'' = Inr (JArray [JNumber ''1'', JNumber ''2''])"
    by code_simp
  have q: "JSON_parse ?blob
      = Inr (JObject [(''files'', JArray [JObject [(''fileUri'', JString [CHR 0xC4, CHR 0x80])]])])"
    by code_simp
  have s: "storage ((empty_state :: unit state)\<lparr>storage := [RECENTLY_OPENED_KEY \<mapsto> b]\<rparr>)
     RECENTLY_OPENED_KEY = Some b" for b
    by simp
  have d1: "decode (JArray [JNumber ''1'', JNumber ''2'']) = None"
    by (simp add: decode_def)
  have d2: "decode (JObject [(''files'', JArray [JObject [(''fileUri'', JString [CHR 0xC4, CHR 0x80])]])])
      = Some \<lparr>workspaces = [], files = [RecentFile (URI [CHR 0xC4, CHR 0x80])]\<rparr>"
    by (simp add: decode_def field_def restore_list_def restore_file_def)
  let ?s1 = "(empty_state :: unit state)\<lparr>storage := [RECENTLY_OPENED_KEY \<mapsto> ''[1,2]'']\<rparr>"
  let ?s2 = "(empty_state :: unit state)\<lparr>storage := [RECENTLY_OPENED_KEY \<mapsto> ?blob]\<rparr>"
  from getRecentlyOpened_json_blob [OF s p]
  have a1: "fst (getRecentlyOpened ?s1) = Inr \<lparr>workspaces = [], files = []\<rparr>"
    and a2: "warnings (snd (getRecentlyOpened ?s1)) = [''Error restoring recently opened entries'']"
    by (simp_all add: d1 restoreRecentlyOpened_def no_history_def empty_state_def)
  from getRecentlyOpened_json_blob [OF s q]
  have b1: "fst (getRecentlyOpened ?s2)
      = Inr \<lparr>workspaces = [], files = [RecentFile (URI [CHR 0xC4, CHR 0x80])]\<rparr>"
    and b2: "warnings (snd (getRecentlyOpened ?s2)) = []"
    by (simp_all add: d2 restoreRecentlyOpened_def empty_state_def)
  show ?thesis
    using p a1 a2 q b1 b2 by - (intro conjI; assumption)
qed

text \<open>
  C3 as the specification states it fails: the blob \<^verbatim>\<open>{\<close> is not JSON text,
  \<^verbatim>\<open>JSON.parse\<close> throws outside any \<^verbatim>\<open>try\<close>, and the caller of \<^verbatim>\<open>getRecentlyOpened\<close> receives
  the \<^verbatim>\<open>SyntaxError\<close>.
\<close>

theorem getRecentlyOpened_malformed_blob:
  "fst (getRecentlyOpened ((empty_state :: unit state)\<lparr>storage := [RECENTLY_OPENED_KEY \<mapsto> ''{'']\<rparr>))
     = Inl SyntaxError"
  by (simp add: getRecentlyOpened_def JSON_parse_def parse_value.simps skip_ws_def is_ws_def)

text \<open>
  C4, as the code has it. \<^verbatim>\<open>openWindow\<close> never calls \<^verbatim>\<open>addRecentlyOpened\<close>: for every
  request it leaves the storage as it was, makes no \<^verbatim>\<open>store\<close> call, and the recent history
  read afterwards is the one read before.
\<close>

theorem openWindow_keeps_history:
  "storage (snd (openWindow e st uris options)) = storage st
   \<and> store_calls (snd (openWindow e st uris options)) = store_calls st
   \<and> fst (getRecentlyOpened (snd (openWindow e st uris options))) = fst (getRecentlyOpened st)"
  by (simp add: openWindow_def openWindow_loop_frame
      fst_getRecentlyOpened_cong [of "snd (openWindow_loop e d st uris)" st for d])

text \<open>
  C4 as the specification states it fails: after opening the folder \<^verbatim>\<open>file:///proj\<close> from a
  service without history, the history is still empty and nothing was stored.
\<close>

theorem openWindow_folder_not_recorded:
  "fst (getRecentlyOpened (snd (openWindow
      \<lparr>windowConfig = None, origin = ''http://localhost'', pathsToEditors = (\<lambda>uris. Inr [])\<rparr>
      (empty_state :: unit state) [FolderToOpen (URI ''file:///proj'')] None)))
     = Inr \<lparr>workspaces = [], files = []\<rparr>
   \<and> store_calls (snd (openWindow
      \<lparr>windowConfig = None, origin = ''http://localhost'', pathsToEditors = (\<lambda>uris. Inr [])\<rparr>
      (empty_state :: unit state) [FolderToOpen (URI ''file:///proj'')] None)) = []"
  by (simp add: openWindow_def Let_def getRecentlyOpened_def empty_state_def no_history_def)

text \<open>
  C5. Starting from a readable history \<open>h\<close>, \<^verbatim>\<open>addRecentlyOpened\<close> succeeds and the history
  read back afterwards is \<open>h\<close> with the entries applied one by one in the order given (the
  last one applied last); applying one entry removes the entries with its location and
  puts it at the front of \<^verbatim>\<open>files\<close> for a file and of \<^verbatim>\<open>workspaces\<close> otherwise; two folders
  \<open>a\<close>, \<open>b\<close> added together to the empty history read \<open>[b, a]\<close> (only \<open>[b]\<close> when both
  have one location); adding folder \<^verbatim>\<open>file:///a\<close> and then the folders \<^verbatim>\<open>file:///b\<close>,
  \<^verbatim>\<open>file:///a\<close> gives the workspaces \<^verbatim>\<open>file:///a\<close>, \<^verbatim>\<open>file:///b\<close>; and the call makes exactly
  one \<^verbatim>\<open>store\<close> call, with the final history.
\<close>

theorem addRecentlyOpened_order:
  assumes "fst (getRecentlyOpened (st :: 'e state)) = Inr h"
  shows "fst (addRecentlyOpened st recents) = Inr ()
   \<and> fst (getRecentlyOpened (snd (addRecentlyOpened st recents))) = Inr (foldl addRecent h recents)
   \<and> foldl addRecent h (recents @ [r]) = addRecent (foldl addRecent h recents) r
   \<and> addRecent h (OfFile f) =
       \<lparr>workspaces = filter (\<lambda>w. workspace_location w \<noteq> file_location f) (workspaces h),
        files = f # filter (\<lambda>g. file_location g \<noteq> file_location f) (files h)\<rparr>
   \<and> addRecent h (OfWorkspaceOrFolder w) =
       \<lparr>workspaces = w # filter (\<lambda>v. workspace_location v \<noteq> workspace_location w) (workspaces h),
        files = filter (\<lambda>g. file_location g \<noteq> workspace_location w) (files h)\<rparr>
   \<and> foldl addRecent no_history
        [OfWorkspaceOrFolder (RecentFolder a), OfWorkspaceOrFolder (RecentFolder b)] =
       \<lparr>workspaces = (if toString a = toString b then [RecentFolder b]
                       else [RecentFolder b, RecentFolder a]),
        files = []\<rparr>
   \<and> fst (getRecentlyOpened (snd (addRecentlyOpened
          (snd (addRecentlyOpened (empty_state :: 'e state)
                 [OfWorkspaceOrFolder (RecentFolder (URI ''file:///a''))]))
          [OfWorkspaceOrFolder (RecentFolder (URI ''file:///b'')),
           OfWorkspaceOrFolder (RecentFolder (URI ''file:///a''))]))) =
       Inr \<lparr>workspaces = [RecentFolder (URI ''file:///a''), RecentFolder (URI ''file:///b'')],
            files = []\<rparr>
   \<and> store_calls (snd (addRecentlyOpened st recents)) =
       store_calls st @
         [(RECENTLY_OPENED_KEY, JSON_stringify (toStoreData (foldl addRecent h recents)))]"
proof -
  have eq_file: "addRecent h (OfFile f) =
       \<lparr>workspaces = filter (\<lambda>w. workspace_location w \<noteq> file_location f) (workspaces h),
        files = f # filter (\<lambda>g. file_location g \<noteq> file_location f) (files h)\<rparr>"
    by (simp add: doRemove_single Let_def file_location_def)
  have eq_ws: "addRecent h (OfWorkspaceOrFolder w) =
       \<lparr>workspaces = w # filter (\<lambda>v. workspace_location v \<noteq> workspace_location w) (workspaces h),
        files = filter (\<lambda>g. file_location g \<noteq> workspace_location w) (files h)\<rparr>"
    by (cases w) (simp_all add: doRemove_single Let_def)
  have scenario: "fst (getRecentlyOpened (snd (addRecentlyOpened
          (snd (addRecentlyOpened (empty_state :: 'e state)
                 [OfWorkspaceOrFolder (RecentFolder (URI ''file:///a''))]))
          [OfWorkspaceOrFolder (RecentFolder (URI ''file:///b'')),
           OfWorkspaceOrFolder (RecentFolder (URI ''file:///a''))]))) =
       Inr \<lparr>workspaces = [RecentFolder (URI ''file:///a''), RecentFolder (URI ''file:///b'')],
            files = []\<rparr>"
    by (simp add: get_after_add [OF get_after_add [OF getRecentlyOpened_empty_state]]
        no_history_def doRemove_single Let_def)
  have ok: "fst (addRecentlyOpened st recents) = Inr ()"
    by (simp add: addRecentlyOpened_Inr [OF assms])
  have last: "foldl addRecent h (recents @ [r]) = addRecent (foldl addRecent h recents) r"
    by simp
  show ?thesis
    using ok get_after_add [OF assms, of recents] last eq_file eq_ws
      foldl_addRecent_two_folders [of a b] scenario store_calls_after_add [OF assms, of recents]
    by - (intro conjI; assumption)
qed

text \<open>From the service without history: two folders added together, and the one store call.\<close>

theorem addRecentlyOpened_order_witness:
  "fst (getRecentlyOpened (empty_state :: unit state)) = Inr \<lparr>workspaces = [], files = []\<rparr>
   \<and> fst (getRecentlyOpened (snd (addRecentlyOpened (empty_state :: unit state)
        [OfWorkspaceOrFolder (RecentFolder (URI ''file:///a'')),
         OfWorkspaceOrFolder (RecentFolder (URI ''file:///b''))])))
      = Inr \<lparr>workspaces = [RecentFolder (URI ''file:///b''), RecentFolder (URI ''file:///a'')],
             files = []\<rparr>
   \<and> length (store_calls (snd (addRecentlyOpened (empty_state :: unit state)
        [OfWorkspaceOrFolder (RecentFolder (URI ''file:///a'')),
         OfWorkspaceOrFolder (RecentFolder (URI ''file:///b''))]))) = 1"
proof -
  have g: "fst (getRecentlyOpened (empty_state :: unit state)) = Inr no_history"
    by (rule getRecentlyOpened_empty_state)
  have e: "store_calls (empty_state :: unit state) = []"
    by (simp add: empty_state_def)
  show ?thesis
    using g e addRecentlyOpened_order [OF g,
        where recents = "[OfWorkspaceOrFolder (RecentFolder (URI ''file:///a'')),
             OfWorkspaceOrFolder (RecentFolder (URI ''file:///b''))]"
          and r = "OfFile (RecentFile (URI ''file:///c''))"
          and f = "RecentFile (URI ''file:///c'')"
          and w = "RecentFolder (URI ''file:///a'')"
          and a = "URI ''file:///a''" and b = "URI ''file:///b''"]
    by (simp add: no_history_def doRemove_single Let_def)
qed

text \<open>
  C6. In every state reached from a storage without history by calls of
  \<^verbatim>\<open>addRecentlyOpened\<close> and \<^verbatim>\<open>removeFromRecentlyOpened\<close> the history can be read, no two files
  have the same location, no two folders have the same location, and no two workspaces
  have the same configuration location; and adding the folder \<open>x\<close> twice leaves one entry
  for \<open>x\<close>, the first of \<^verbatim>\<open>workspaces\<close>, all other entries with that location removed.
\<close>

theorem reachable_unique_per_kind:
  assumes "reachable st"
  shows "\<exists>h. fst (getRecentlyOpened st) = Inr h
     \<and> distinct (map file_location (files h))
     \<and> distinct (folder_locations (workspaces h))
     \<and> distinct (config_locations (workspaces h))
     \<and> fst (getRecentlyOpened
            (snd (addRecentlyOpened
               (snd (addRecentlyOpened st [OfWorkspaceOrFolder (RecentFolder x)]))
               [OfWorkspaceOrFolder (RecentFolder x)]))) =
         Inr \<lparr>workspaces =
                RecentFolder x # filter (\<lambda>w. workspace_location w \<noteq> toString x) (workspaces h),
              files = filter (\<lambda>f. file_location f \<noteq> toString x) (files h)\<rparr>"
proof -
  from reachable_unique [OF assms] obtain h where
    h: "fst (getRecentlyOpened st) = Inr h" "unique_locations h" by blast
  from h(1) unique_by_kind [OF h(2)] add_folder_twice [OF h(1), of x] show ?thesis
    by blast
qed

text \<open>A reached state: a folder and a file of one location added together.\<close>

theorem reachable_unique_per_kind_witness:
  "reachable (snd (addRecentlyOpened (empty_state :: unit state)
       [OfWorkspaceOrFolder (RecentFolder (URI ''file:///a'')), OfFile (RecentFile (URI ''file:///a''))]))
   \<and> (\<exists>h. fst (getRecentlyOpened (snd (addRecentlyOpened (empty_state :: unit state)
       [OfWorkspaceOrFolder (RecentFolder (URI ''file:///a'')), OfFile (RecentFile (URI ''file:///a''))])))
         = Inr h
      \<and> distinct (map file_location (files h))
      \<and> distinct (folder_locations (workspaces h))
      \<and> distinct (config_locations (workspaces h)))"
proof -
  have "reachable (empty_state :: unit state)"
    by (rule reachable.start) (simp add: empty_state_def)
  then have r: "reachable (snd (addRecentlyOpened (empty_state :: unit state)
       [OfWorkspaceOrFolder (RecentFolder (URI ''file:///a'')), OfFile (RecentFile (URI ''file:///a''))]))"
    by (rule reachable.add)
  from reachable_unique_per_kind [OF r] r show ?thesis
    by blast
qed

text \<open>
  C7. \<^verbatim>\<open>openWindow\<close> takes the decision once and routes every target with that one boolean:
  the call is the routed actions of the targets, performed in order. The result of the
  call and the inputs handed to the editor service do not depend on the options, hence
  not on the decision. Opening the single folder \<^verbatim>\<open>file:///proj\<close> with \<^verbatim>\<open>forceNewWindow\<close>
  performs one action, \<^verbatim>\<open>window.open\<close> on the address of \<^verbatim>\<open>/proj\<close>, and no editor call.
\<close>

theorem openWindow_routing:
  "openWindow e st uris options =
     emit st (map (route_target e (shouldOpenNewWindow (windowConfig e) options)) uris)
   \<and> fst (openWindow e st uris options) = fst (openWindow e st uris options')
   \<and> editor_inputs (actions (snd (openWindow e st uris options)))
       = editor_inputs (actions (snd (openWindow e st uris options')))
   \<and> openWindow e empty_state [FolderToOpen (URI ''file:///proj'')]
        (Some \<lparr>forceNewWindow = Some True, forceReuseWindow = None\<rparr>)
       = (Inr (), empty_state\<lparr>actions := [WindowOpen (origin e @ ''/?folder=/proj'')]\<rparr>)"
proof -
  have "openWindow e empty_state [FolderToOpen (URI ''file:///proj'')]
        (Some \<lparr>forceNewWindow = Some True, forceReuseWindow = None\<rparr>)
       = (Inr (), empty_state\<lparr>actions := [WindowOpen (origin e @ ''/?folder=/proj'')]\<rparr>)"
    by (simp add: openWindow_def shouldOpenNewWindow_def truthy_def Let_def empty_state_def
        path_def strip_scheme_def strip_authority_def)
  then show ?thesis
    using emit_independent [of st st e "shouldOpenNewWindow (windowConfig e) options" uris
        "shouldOpenNewWindow (windowConfig e) options'"]
    by (simp add: openWindow_def openWindow_loop_emit)
qed

text \<open>
  C8. Decoding the encoded form of a history gives the history back, with no warning, for
  every history; the encoded form also survives \<^verbatim>\<open>JSON.stringify\<close> and \<^verbatim>\<open>JSON.parse\<close>, so
  that what \<^verbatim>\<open>saveRecentlyOpened\<close> stored is what \<^verbatim>\<open>getRecentlyOpened\<close> reads.
\<close>

theorem codec_round_trip:
  "restoreRecentlyOpened (toStoreData h) = (h, [])
   \<and> JSON_parse (JSON_stringify (toStoreData h)) = Inr (toStoreData h)
   \<and> getRecentlyOpened (saveRecentlyOpened st h) = (Inr h, saveRecentlyOpened st h)"
  by (simp add: restoreRecentlyOpened_toStoreData JSON_parse_toStoreData
      getRecentlyOpened_saveRecentlyOpened)

text \<open>
  C9. Starting from a readable history \<open>h\<close>, \<^verbatim>\<open>removeFromRecentlyOpened\<close> succeeds and the
  history read back afterwards is \<open>h\<close> with exactly the entries removed whose location
  string (the file location, the folder location or the workspace configuration
  location) is the string of one of the given locations, every other entry of both lists
  kept in place; when none of the given locations is in the history, the history is
  unchanged; and the call makes one \<^verbatim>\<open>store\<close> call with the resulting history.
\<close>

theorem removeFromRecentlyOpened_frame:
  assumes "fst (getRecentlyOpened st) = Inr h"
  shows "fst (removeFromRecentlyOpened st paths) = Inr ()
   \<and> fst (getRecentlyOpened (snd (removeFromRecentlyOpened st paths))) =
       Inr \<lparr>workspaces =
              filter (\<lambda>w. workspace_location w \<notin> toString ` set paths) (workspaces h),
            files = filter (\<lambda>f. file_location f \<notin> toString ` set paths) (files h)\<rparr>
   \<and> (if list_all (\<lambda>p. toString p \<notin> set (map file_location (files h))
              \<and> toString p \<notin> set (map workspace_location (workspaces h))) paths
       then fst (getRecentlyOpened (snd (removeFromRecentlyOpened st paths))) = Inr h
       else True)
   \<and> store_calls (snd (removeFromRecentlyOpened st paths)) =
       store_calls st @
         [(RECENTLY_OPENED_KEY,
           JSON_stringify (toStoreData (doRemoveFromRecentlyOpened h paths)))]"
proof -
  have ok: "fst (removeFromRecentlyOpened st paths) = Inr ()"
    by (simp add: removeFromRecentlyOpened_Inr [OF assms])
  have after: "fst (getRecentlyOpened (snd (removeFromRecentlyOpened st paths))) =
       Inr \<lparr>workspaces =
              filter (\<lambda>w. workspace_location w \<notin> toString ` set paths) (workspaces h),
            files = filter (\<lambda>f. file_location f \<notin> toString ` set paths) (files h)\<rparr>"
    using get_after_remove [OF assms, of paths] by (simp add: doRemove_set)
  have noop: "if list_all (\<lambda>p. toString p \<notin> set (map file_location (files h))
              \<and> toString p \<notin> set (map workspace_location (workspaces h))) paths
       then fst (getRecentlyOpened (snd (removeFromRecentlyOpened st paths))) = Inr h
       else True"
    using get_after_remove [OF assms, of paths] by (simp add: doRemove_absent)
  show ?thesis
    using ok after noop store_calls_after_remove [OF assms, of paths]
    by - (intro conjI; assumption)
qed

text \<open>A folder and a file in the history: removing the folder, and removing an absent location.\<close>

theorem removeFromRecentlyOpened_frame_witness:
  "fst (getRecentlyOpened (snd (addRecentlyOpened (empty_state :: unit state)
       [OfWorkspaceOrFolder (RecentFolder (URI ''file:///a'')), OfFile (RecentFile (URI ''file:///c''))])))
     = Inr \<lparr>workspaces = [RecentFolder (URI ''file:///a'')], files = [RecentFile (URI ''file:///c'')]\<rparr>
   \<and> fst (getRecentlyOpened (snd (removeFromRecentlyOpened
       (snd (addRecentlyOpened (empty_state :: unit state)
          [OfWorkspaceOrFolder (RecentFolder (URI ''file:///a'')), OfFile (RecentFile (URI ''file:///c''))]))
       [URI ''file:///a''])))
     = Inr \<lparr>workspaces = [], files = [RecentFile (URI ''file:///c'')]\<rparr>
   \<and> fst (getRecentlyOpened (snd (removeFromRecentlyOpened
       (snd (addRecentlyOpened (empty_state :: unit state)
          [OfWorkspaceOrFolder (RecentFolder (URI ''file:///a'')), OfFile (RecentFile (URI ''file:///c''))]))
       [URI ''file:///b''])))
     = Inr \<lparr>workspaces = [RecentFolder (URI ''file:///a'')], files = [RecentFile (URI ''file:///c'')]\<rparr>"
proof -
  let ?st = "snd (addRecentlyOpened (empty_state :: unit state)
       [OfWorkspaceOrFolder (RecentFolder (URI ''file:///a'')), OfFile (RecentFile (URI ''file:///c''))])"
  have g: "fst (getRecentlyOpened ?st)
     = Inr \<lparr>workspaces = [RecentFolder (URI ''file:///a'')], files = [RecentFile (URI ''file:///c'')]\<rparr>"
    by (simp add: get_after_add [OF getRecentlyOpened_empty_state] no_history_def
        doRemove_single Let_def file_location_def)
  show ?thesis
    using g removeFromRecentlyOpened_frame [OF g, of "[URI ''file:///a'']"]
      removeFromRecentlyOpened_frame [OF g, of "[URI ''file:///b'']"]
    by (simp add: file_location_def)
qed

text \<open>
  C10. In every state reached from a storage without history by calls of
  \<^verbatim>\<open>addRecentlyOpened\<close> and \<^verbatim>\<open>removeFromRecentlyOpened\<close> no two entries of the history, of
  whatever kinds, have the same location string. Adding an entry filters both lists by
  its location, whatever its kind, before the entry is put in front of its own list:
  adding the file \<open>x\<close> removes a folder \<open>x\<close> and a workspace configured at \<open>x\<close>, and
  adding that workspace removes the file \<open>x\<close>.
\<close>

theorem add_dedups_across_kinds:
  assumes "reachable st"
  shows "(\<exists>h. fst (getRecentlyOpened st) = Inr h \<and> unique_locations h)
   \<and> files (addRecent g r) =
       (case r of OfFile f \<Rightarrow> [f] | OfWorkspaceOrFolder w \<Rightarrow> [])
         @ filter (\<lambda>f. file_location f \<noteq> recent_location r) (files g)
   \<and> workspaces (addRecent g r) =
       (case r of OfFile f \<Rightarrow> [] | OfWorkspaceOrFolder w \<Rightarrow> [w])
         @ filter (\<lambda>w. workspace_location w \<noteq> recent_location r) (workspaces g)
   \<and> addRecent
        \<lparr>workspaces = [RecentFolder (URI x), RecentWorkspace \<lparr>id' = i, configPath = URI x\<rparr>],
         files = []\<rparr>
        (OfFile (RecentFile (URI x)))
       = \<lparr>workspaces = [], files = [RecentFile (URI x)]\<rparr>
   \<and> addRecent \<lparr>workspaces = [], files = [RecentFile (URI x)]\<rparr>
        (OfWorkspaceOrFolder (RecentWorkspace \<lparr>id' = i, configPath = URI x\<rparr>))
       = \<lparr>workspaces = [RecentWorkspace \<lparr>id' = i, configPath = URI x\<rparr>], files = []\<rparr>"
proof -
  have ex1: "addRecent
        \<lparr>workspaces = [RecentFolder (URI x), RecentWorkspace \<lparr>id' = i, configPath = URI x\<rparr>],
         files = []\<rparr>
        (OfFile (RecentFile (URI x)))
       = \<lparr>workspaces = [], files = [RecentFile (URI x)]\<rparr>"
    by (simp add: doRemove_single Let_def)
  have ex2: "addRecent \<lparr>workspaces = [], files = [RecentFile (URI x)]\<rparr>
        (OfWorkspaceOrFolder (RecentWorkspace \<lparr>id' = i, configPath = URI x\<rparr>))
       = \<lparr>workspaces = [RecentWorkspace \<lparr>id' = i, configPath = URI x\<rparr>], files = []\<rparr>"
    by (simp add: doRemove_single Let_def file_location_def)
  show ?thesis
    using reachable_unique [OF assms] files_addRecent [of g r] workspaces_addRecent [of g r]
      ex1 ex2
    by - (intro conjI; assumption)
qed

text \<open>A reached state: the file added after the folder of the same location replaced it.\<close>

theorem add_dedups_across_kinds_witness:
  "reachable (snd (addRecentlyOpened (empty_state :: unit state)
       [OfWorkspaceOrFolder (RecentFolder (URI ''file:///a'')), OfFile (RecentFile (URI ''file:///a''))]))
   \<and> fst (getRecentlyOpened (snd (addRecentlyOpened (empty_state :: unit state)
       [OfWorkspaceOrFolder (RecentFolder (URI ''file:///a'')), OfFile (RecentFile (URI ''file:///a''))])))
       = Inr \<lparr>workspaces = [], files = [RecentFile (URI ''file:///a'')]\<rparr>
   \<and> (\<exists>h. fst (getRecentlyOpened (snd (addRecentlyOpened (empty_state :: unit state)
       [OfWorkspaceOrFolder (RecentFolder (URI ''file:///a'')), OfFile (RecentFile (URI ''file:///a''))])))
         = Inr h
      \<and> unique_locations h)"
proof -
  let ?st = "snd (addRecentlyOpened (empty_state :: unit state)
       [OfWorkspaceOrFolder (RecentFolder (URI ''file:///a'')), OfFile (RecentFile (URI ''file:///a''))])"
  have "reachable (empty_state :: unit state)"
    by (rule reachable.start) (simp add: empty_state_def)
  then have r: "reachable ?st"
    by (rule reachable.add)
  have g: "fst (getRecentlyOpened ?st)
       = Inr \<lparr>workspaces = [], files = [RecentFile (URI ''file:///a'')]\<rparr>"
    by (simp add: get_after_add [OF getRecentlyOpened_empty_state] no_history_def
        doRemove_single Let_def file_location_def)
  from add_dedups_across_kinds [OF r] r g show ?thesis
    by blast
qed

end
